theory Spec2Isabelle
  imports Main
begin

section \<open>Topics\<close>

text \<open>
  A topic is the object literal of \<^verbatim>\<open>initialNodes\<close> (react_app.js) and of
  \<^verbatim>\<open>knowledgeGraph.nodes\<close> (script.js).  The field \<^verbatim>\<open>id\<close> is called
  \<open>node_id\<close> here, since \<open>id\<close> is the identity function of HOL.  Numbers are
  integers: the values the drop-down offers, the values \<^verbatim>\<open>parseInt\<close> returns on
  digits, and the integers of a snapshot; NaN and fractions are outside this model.
  The field \<^verbatim>\<open>unlocked\<close> is absent from the literals (undefined, which is falsy)
  until \<^verbatim>\<open>computeUnlocks\<close> has run; absent is modelled as \<open>False\<close>.
\<close>

record node =
  node_id :: string
  title :: string
  description :: string
  dependencies :: "string list"
  progress :: int
  unlocked :: bool

definition mk_node :: "string \<Rightarrow> string \<Rightarrow> string \<Rightarrow> string list \<Rightarrow> int \<Rightarrow> node" where
  "mk_node i t d ds p =
     \<lparr>node_id = i, title = t, description = d, dependencies = ds, progress = p,
      unlocked = False\<rparr>"

definition initialNodes :: "node list" where
  "initialNodes =
     [mk_node ''basics'' ''Programming Fundamentals''
        ''Learn variables, control flow, functions and the building blocks of code.'' [] 0,
      mk_node ''datastructures'' ''Data Structures''
        ''Study arrays, lists, stacks, queues, trees and more.  Knowing how data is organised is essential.''
        [''basics''] 0,
      mk_node ''algorithms'' ''Algorithms''
        ''Explore sorting, searching and other fundamental algorithms.  Learn to reason about complexity.''
        [''basics''] 0,
      mk_node ''graphs'' ''Graph Theory''
        ''Understand nodes and edges, traversal algorithms and shortest paths.''
        [''datastructures'', ''algorithms''] 0,
      mk_node ''machinelearning'' ''Machine Learning''
        ''Dive into supervised and unsupervised learning, regression, classification and neural networks.''
        [''algorithms''] 0]"

section \<open>The unlock rule of react_app.js\<close>

text \<open>
  \<^verbatim>\<open>nodes.find((n) => n.id === depId)\<close>: the first node carrying the id, or
  undefined.
\<close>

definition find_node :: "node list \<Rightarrow> string \<Rightarrow> node option" where
  "find_node nodes depId = find (\<lambda>n. node_id n = depId) nodes"

text \<open>
  The callback of \<^verbatim>\<open>every\<close>: \<^verbatim>\<open>depNode && depNode.progress >= 75\<close>.
  An undefined \<^verbatim>\<open>depNode\<close> is falsy.
\<close>

definition dep_ok :: "node list \<Rightarrow> string \<Rightarrow> bool" where
  "dep_ok nodes depId =
     (case find_node nodes depId of
        None \<Rightarrow> False
      | Some depNode \<Rightarrow> 75 \<le> progress depNode)"

text \<open>
  \<^verbatim>\<open>computeUnlocks(nodes)\<close> returns copies of the nodes with \<^verbatim>\<open>unlocked\<close> set.
  Every topic of the source has a \<^verbatim>\<open>dependencies\<close> array, so the test
  \<^verbatim>\<open>!node.dependencies\<close> is the test for the empty array.
\<close>

definition computeUnlocks :: "node list \<Rightarrow> node list" where
  "computeUnlocks nodes =
     map (\<lambda>node.
        if dependencies node = [] then node\<lparr>unlocked := True\<rparr>
        else node\<lparr>unlocked := list_all (dep_ok nodes) (dependencies node)\<rparr>) nodes"

section \<open>Browser storage and exceptions\<close>

text \<open>
  \<^verbatim>\<open>localStorage\<close> is the browser's, not the repository's: it is modelled as a
  table from keys to texts with a flag saying whether writes succeed.  A write to
  unavailable storage (quota exceeded, storage disabled) throws.  Reading a
  property of \<^verbatim>\<open>null\<close> throws a TypeError.
\<close>

datatype exn = TypeError | StorageError

record storage =
  items :: "string \<rightharpoonup> string"
  available :: bool

definition setItem :: "string \<Rightarrow> string \<Rightarrow> storage \<Rightarrow> exn + storage" where
  "setItem k v ls =
     (if available ls then Inr (ls\<lparr>items := (items ls)(k \<mapsto> v)\<rparr>) else Inl StorageError)"

text \<open>
  \<^verbatim>\<open>String(n)\<close> on an integer: its decimal digits, with a minus sign below zero
  (JavaScript switches to an exponent from \<open>10\<^sup>2\<^sup>1\<close> on, far from any progress value).
\<close>

definition digit_char :: "nat \<Rightarrow> char" where
  "digit_char d = ''0123456789'' ! d"

function digits :: "nat \<Rightarrow> string" where
  "digits n = (if n < 10 then [digit_char n] else digits (n div 10) @ [digit_char (n mod 10)])"
  by pat_completeness auto
termination
  by (relation "measure (\<lambda>n. n)") auto

definition String_of :: "int \<Rightarrow> string" where
  "String_of n = (if n < 0 then CHR ''-'' # digits (nat (- n)) else digits (nat n))"

section \<open>The application state of react_app.js\<close>

text \<open>
  The component state \<^verbatim>\<open>nodes\<close> and the storage.  \<^verbatim>\<open>setNodes(f)\<close> runs
  the updater \<open>f\<close> on the current list and installs its result.  An exception thrown
  inside the updater installs nothing; this outcome is called \<open>Uncaught\<close>.  The
  handler of the drop-down has no \<^verbatim>\<open>try\<close>; in \<^verbatim>\<open>importProgress\<close> the
  \<^verbatim>\<open>try\<close> around \<^verbatim>\<open>setNodes\<close> may still see the exception and log it, which
  the label does not record.
\<close>

record app =
  nodes :: "node list"
  localStorage :: storage

datatype outcome =
    Updated           \<comment> \<open>the new node list was installed\<close>
  | ParseError        \<comment> \<open>\<^verbatim>\<open>JSON.parse\<close> threw; caught and logged with \<^verbatim>\<open>console.error\<close>\<close>
  | NotArray          \<comment> \<open>\<^verbatim>\<open>if (!Array.isArray(arr)) return;\<close>\<close>
  | Uncaught exn      \<comment> \<open>an exception thrown after parsing: no new list is installed\<close>

subsection \<open>updateProgress\<close>

text \<open>The constant \<^verbatim>\<open>updated\<close> of \<^verbatim>\<open>updateProgress\<close>.\<close>

definition update_nodes :: "string \<Rightarrow> int \<Rightarrow> node list \<Rightarrow> node list" where
  "update_nodes i newProgress prev =
     map (\<lambda>n. if node_id n = i then n\<lparr>progress := newProgress\<rparr> else n) prev"

definition updateProgress :: "string \<Rightarrow> int \<Rightarrow> app \<Rightarrow> outcome \<times> app" where
  "updateProgress i newProgress st =
     (let updated = update_nodes i newProgress (nodes st) in
      case setItem (''kpv-react-progress-'' @ i) (String_of newProgress) (localStorage st) of
        Inl e \<Rightarrow> (Uncaught e, st)
      | Inr ls \<Rightarrow> (Updated, st\<lparr>nodes := computeUnlocks updated, localStorage := ls\<rparr>))"

subsection \<open>JSON values\<close>

text \<open>
  The result of \<^verbatim>\<open>JSON.parse\<close>.  An object is the list of its members; a parsed
  object has each key once.  \<^verbatim>\<open>JSON.parse\<close> and \<^verbatim>\<open>JSON.stringify\<close> are the
  platform's: the functions below take them as parameters, \<open>None\<close> standing for the
  SyntaxError of \<^verbatim>\<open>JSON.parse\<close>.
\<close>

datatype json =
    JNull
  | JBool bool
  | JNum int
  | JStr string
  | JArr "json list"
  | JObj "(string \<times> json) list"

text \<open>
  \<^verbatim>\<open>v.k\<close> for the keys \<^verbatim>\<open>id\<close> and \<^verbatim>\<open>progress\<close>: a member of an object,
  undefined (\<open>None\<close>) on an object without it and on a boolean, number, string or
  array, a TypeError on \<^verbatim>\<open>null\<close>.
\<close>

fun get_prop :: "json \<Rightarrow> string \<Rightarrow> exn + json option" where
  "get_prop JNull k = Inl TypeError"
| "get_prop (JObj kvs) k = Inr (map_of kvs k)"
| "get_prop v k = Inr None"

text \<open>
  \<^verbatim>\<open>arr.find(function (entry) { return entry.id === n.id; })\<close>: the entries are
  visited in order until one matches; reading \<^verbatim>\<open>id\<close> of a \<^verbatim>\<open>null\<close> entry on
  the way throws.
\<close>

fun find_entry :: "json list \<Rightarrow> string \<Rightarrow> exn + json option" where
  "find_entry [] i = Inr None"
| "find_entry (entry # arr) i =
     (case get_prop entry ''id'' of
        Inl e \<Rightarrow> Inl e
      | Inr v \<Rightarrow> if v = Some (JStr i) then Inr (Some entry) else find_entry arr i)"

subsection \<open>importProgress\<close>

text \<open>
  \<^verbatim>\<open>typeof v === 'number'\<close>, with the number: \<open>None\<close> for undefined and for
  every value that is not a number.
\<close>

fun as_number :: "json option \<Rightarrow> int option" where
  "as_number (Some (JNum p)) = Some p"
| "as_number v = None"

text \<open>The callback of \<^verbatim>\<open>prev.map\<close> in \<^verbatim>\<open>importProgress\<close>, on one node.\<close>

definition import_node :: "json list \<Rightarrow> node \<Rightarrow> storage \<Rightarrow> (exn + node) \<times> storage" where
  "import_node arr n ls =
     (case find_entry arr (node_id n) of
        Inl e \<Rightarrow> (Inl e, ls)
      | Inr None \<Rightarrow> (Inr n, ls)
      | Inr (Some match) \<Rightarrow>
          (case get_prop match ''progress'' of
             Inl e \<Rightarrow> (Inl e, ls)
           | Inr v \<Rightarrow>
               (case as_number v of
                  None \<Rightarrow> (Inr n, ls)
                | Some p \<Rightarrow>
                    (let newProg = max 0 (min 100 p) in
                     case setItem (''kpv-react-progress-'' @ node_id n) (String_of newProg) ls of
                       Inl e \<Rightarrow> (Inl e, ls)
                     | Inr ls' \<Rightarrow> (Inr (n\<lparr>progress := newProg\<rparr>), ls')))))"

text \<open>\<^verbatim>\<open>prev.map\<close>: left to right, the storage threaded through, stopping at a throw.\<close>

fun import_nodes :: "json list \<Rightarrow> node list \<Rightarrow> storage \<Rightarrow> (exn + node list) \<times> storage" where
  "import_nodes arr [] ls = (Inr [], ls)"
| "import_nodes arr (n # prev) ls =
     (case import_node arr n ls of
        (Inl e, ls') \<Rightarrow> (Inl e, ls')
      | (Inr n', ls') \<Rightarrow>
          (case import_nodes arr prev ls' of
             (Inl e, ls'') \<Rightarrow> (Inl e, ls'')
           | (Inr updated, ls'') \<Rightarrow> (Inr (n' # updated), ls'')))"

text \<open>
  \<^verbatim>\<open>reader.onload\<close> of \<^verbatim>\<open>importProgress\<close>, on the text of the chosen file.
\<close>

definition importProgress :: "('t \<Rightarrow> json option) \<Rightarrow> 't \<Rightarrow> app \<Rightarrow> outcome \<times> app" where
  "importProgress JSON_parse text st =
     (case JSON_parse text of
        None \<Rightarrow> (ParseError, st)
      | Some (JArr arr) \<Rightarrow>
          (case import_nodes arr (nodes st) (localStorage st) of
             (Inl e, ls) \<Rightarrow> (Uncaught e, st\<lparr>localStorage := ls\<rparr>)
           | (Inr updated, ls) \<Rightarrow>
               (Updated, st\<lparr>nodes := computeUnlocks updated, localStorage := ls\<rparr>))
      | Some _ \<Rightarrow> (NotArray, st))"

subsection \<open>exportProgress\<close>

definition progressData :: "node list \<Rightarrow> json" where
  "progressData ns =
     JArr (map (\<lambda>n. JObj [(''id'', JStr (node_id n)), (''progress'', JNum (progress n))]) ns)"

text \<open>
  The text \<^verbatim>\<open>jsonStr\<close> that \<^verbatim>\<open>exportProgress\<close> offers for download (the file
  name carries a timestamp and is not part of the content).
\<close>

definition exportProgress :: "(json \<Rightarrow> 't) \<Rightarrow> app \<Rightarrow> 't" where
  "exportProgress JSON_stringify st = JSON_stringify (progressData (nodes st))"

section \<open>script.js\<close>

text \<open>
  \<^verbatim>\<open>knowledgeGraph.nodes\<close> is a global array of mutable objects, and
  \<^verbatim>\<open>nodeMap\<close> maps an id to one of these objects, not to a copy.  A reference is
  modelled as the object's index in the array; the array never grows or shrinks.
\<close>

text \<open>
  \<^verbatim>\<open>knowledgeGraph.nodes.forEach((n) => { nodeMap.set(n.id, n); })\<close>: a later
  node replaces an earlier one with the same id.
\<close>

definition build_nodeMap :: "node list \<Rightarrow> (string \<rightharpoonup> nat)" where
  "build_nodeMap ns = fold (\<lambda>i m. m(node_id (ns ! i) \<mapsto> i)) [0..<length ns] Map.empty"

definition dep_ok_dom :: "(string \<rightharpoonup> nat) \<Rightarrow> node list \<Rightarrow> string \<Rightarrow> bool" where
  "dep_ok_dom nodeMap ns depId =
     (case nodeMap depId of
        None \<Rightarrow> False
      | Some j \<Rightarrow> 75 \<le> progress (ns ! j))"

text \<open>
  \<^verbatim>\<open>computeUnlocks()\<close> of script.js writes \<^verbatim>\<open>unlocked\<close> into each object in
  turn, reading the progress of the objects as they are at that moment.
\<close>

definition computeUnlocks_dom :: "(string \<rightharpoonup> nat) \<Rightarrow> node list \<Rightarrow> node list" where
  "computeUnlocks_dom nodeMap ns =
     fold (\<lambda>i cur.
        if dependencies (cur ! i) = [] then cur[i := (cur ! i)\<lparr>unlocked := True\<rparr>]
        else cur[i := (cur ! i)\<lparr>unlocked :=
                          list_all (dep_ok_dom nodeMap cur) (dependencies (cur ! i))\<rparr>])
       [0..<length ns] ns"

record dom =
  graph_nodes :: "node list"
  nodeMap :: "string \<rightharpoonup> nat"
  dom_storage :: storage

definition saveProgress :: "node \<Rightarrow> storage \<Rightarrow> exn + storage" where
  "saveProgress n ls = setItem (''kpv-progress-'' @ node_id n) (String_of (progress n)) ls"

text \<open>
  \<^verbatim>\<open>select.onchange\<close> of \<^verbatim>\<open>openModal(node)\<close>, \<open>k\<close> being the index of
  \<^verbatim>\<open>node\<close> in the array.  The assignment to \<^verbatim>\<open>node.progress\<close> comes first;
  an exception of \<^verbatim>\<open>saveProgress\<close> leaves the handler before
  \<^verbatim>\<open>computeUnlocks()\<close>.
\<close>

definition select_onchange :: "nat \<Rightarrow> int \<Rightarrow> dom \<Rightarrow> outcome \<times> dom" where
  "select_onchange k newVal st =
     (let ns = (graph_nodes st)[k := (graph_nodes st ! k)\<lparr>progress := newVal\<rparr>] in
      case saveProgress (ns ! k) (dom_storage st) of
        Inl e \<Rightarrow> (Uncaught e, st\<lparr>graph_nodes := ns\<rparr>)
      | Inr ls \<Rightarrow>
          (Updated, st\<lparr>graph_nodes := computeUnlocks_dom (nodeMap st) ns, dom_storage := ls\<rparr>))"

section \<open>Auxiliary notions for the proofs\<close>

text \<open>The map \<^verbatim>\<open>nodeMap\<close> after the first \<open>k\<close> calls of \<^verbatim>\<open>nodeMap.set\<close>.\<close>

definition nodeMap_upto :: "node list \<Rightarrow> nat \<Rightarrow> (string \<rightharpoonup> nat)" where
  "nodeMap_upto ns k = fold (\<lambda>i m. m(node_id (ns ! i) \<mapsto> i)) [0..<k] Map.empty"

text \<open>One iteration of the \<^verbatim>\<open>forEach\<close> of \<^verbatim>\<open>computeUnlocks()\<close> in script.js.\<close>

definition unlock_step :: "(string \<rightharpoonup> nat) \<Rightarrow> nat \<Rightarrow> node list \<Rightarrow> node list" where
  "unlock_step m i cur =
     (if dependencies (cur ! i) = [] then cur[i := (cur ! i)\<lparr>unlocked := True\<rparr>]
      else cur[i := (cur ! i)\<lparr>unlocked := list_all (dep_ok_dom m cur) (dependencies (cur ! i))\<rparr>])"

text \<open>What that loop leaves in an object, in terms of the array it started from.\<close>

definition unlock_of :: "(string \<rightharpoonup> nat) \<Rightarrow> node list \<Rightarrow> node \<Rightarrow> node" where
  "unlock_of m ns n = n\<lparr>unlocked := list_all (dep_ok_dom m ns) (dependencies n)\<rparr>"

text \<open>Three topics: \<open>A\<close> without prerequisites, \<open>B\<close> after \<open>A\<close>, \<open>C\<close> after both.\<close>

definition abc :: "int \<Rightarrow> int \<Rightarrow> int \<Rightarrow> node list" where
  "abc a b c =
     [mk_node ''A'' ''Topic A'' ''first'' [] a,
      mk_node ''B'' ''Topic B'' ''second'' [''A''] b,
      mk_node ''C'' ''Topic C'' ''third'' [''A'', ''B''] c]"

definition storage0 :: storage where
  "storage0 = \<lparr>items = Map.empty, available = True\<rparr>"

text \<open>The entry carries the id \<open>i\<close>: \<^verbatim>\<open>entry.id === i\<close> holds.\<close>

definition has_id :: "json \<Rightarrow> string \<Rightarrow> bool" where
  "has_id entry i = (get_prop entry ''id'' = Inr (Some (JStr i)))"

text \<open>What the callback of \<^verbatim>\<open>prev.map\<close> returns for a node when nothing throws.\<close>

definition imported :: "json list \<Rightarrow> node \<Rightarrow> node" where
  "imported arr n =
     (case find_entry arr (node_id n) of
        Inr (Some match) \<Rightarrow>
          (case get_prop match ''progress'' of
             Inr v \<Rightarrow>
               (case as_number v of
                  Some p \<Rightarrow> n\<lparr>progress := max 0 (min 100 p)\<rparr>
                | None \<Rightarrow> n)
           | Inl e \<Rightarrow> n)
      | _ \<Rightarrow> n)"

text \<open>The object that \<^verbatim>\<open>exportProgress\<close> writes for a node.\<close>

definition entry_of :: "node \<Rightarrow> json" where
  "entry_of n = JObj [(''id'', JStr (node_id n)), (''progress'', JNum (progress n))]"

text \<open>
  A snapshot with an unknown id, a value above 100, a progress that is not a number
  and a second entry for \<open>A\<close>.
\<close>

definition sample_snapshot :: "json list" where
  "sample_snapshot =
     [JObj [(''id'', JStr ''nonexistent''), (''progress'', JNum 50)],
      JObj [(''id'', JStr ''A''), (''progress'', JNum 150)],
      JObj [(''id'', JStr ''B''), (''progress'', JStr ''high'')],
      JObj [(''id'', JStr ''A''), (''progress'', JNum 30)]]"

text \<open>The two applications on these topics, with empty, working storage.\<close>

definition app_abc :: "int \<Rightarrow> int \<Rightarrow> int \<Rightarrow> app" where
  "app_abc a b c = \<lparr>nodes = abc a b c, localStorage = storage0\<rparr>"

definition dom_abc :: "int \<Rightarrow> int \<Rightarrow> int \<Rightarrow> dom" where
  "dom_abc a b c =
     \<lparr>graph_nodes = abc a b c, nodeMap = build_nodeMap (abc a b c), dom_storage = storage0\<rparr>"

section \<open>Properties of the unlock rule\<close>

lemma length_computeUnlocks: "length (computeUnlocks ns) = length ns"
  by (simp add: computeUnlocks_def)

lemma computeUnlocks_nth:
  "i < length ns \<Longrightarrow>
   computeUnlocks ns ! i =
     (ns ! i)\<lparr>unlocked := list_all (dep_ok ns) (dependencies (ns ! i))\<rparr>"
  by (simp add: computeUnlocks_def)

lemma find_map_preserving:
  assumes "\<And>x. P (f x) = P x"
  shows "find P (map f xs) = map_option f (find P xs)"
  using assms by (induction xs) simp_all

lemma find_node_computeUnlocks:
  "find_node (computeUnlocks ns) d =
   map_option (\<lambda>n. n\<lparr>unlocked := list_all (dep_ok ns) (dependencies n)\<rparr>) (find_node ns d)"
proof -
  have "computeUnlocks ns =
        map (\<lambda>n. n\<lparr>unlocked := list_all (dep_ok ns) (dependencies n)\<rparr>) ns"
    by (simp add: computeUnlocks_def)
  then show ?thesis
    by (simp add: find_node_def find_map_preserving)
qed

lemma dep_ok_computeUnlocks: "dep_ok (computeUnlocks ns) d = dep_ok ns d"
  by (simp add: dep_ok_def find_node_computeUnlocks split: option.splits)

lemma computeUnlocks_twice: "computeUnlocks (computeUnlocks ns) = computeUnlocks ns"
  by (simp add: computeUnlocks_def dep_ok_computeUnlocks[unfolded computeUnlocks_def] list_all_iff)

lemma find_node_SomeD: "find_node ns d = Some t \<Longrightarrow> t \<in> set ns \<and> node_id t = d"
  unfolding find_node_def find_Some_iff by (metis nth_mem)

lemma same_id_same_node:
  assumes "distinct (map node_id ns)" and "t \<in> set ns" and "u \<in> set ns"
    and "node_id u = node_id t"
  shows "u = t"
proof -
  from assms(1) have "inj_on node_id (set ns)"
    by (simp add: distinct_map)
  with assms(2-4) show ?thesis
    by (rule_tac inj_onD)
qed

lemma dep_ok_iff:
  assumes "distinct (map node_id ns)"
  shows "dep_ok ns d \<longleftrightarrow> (\<exists>t\<in>set ns. node_id t = d \<and> 75 \<le> progress t)"
proof (cases "find_node ns d")
  case None
  then have "\<forall>t\<in>set ns. node_id t \<noteq> d"
    by (simp add: find_node_def find_None_iff)
  moreover from None have "\<not> dep_ok ns d"
    by (simp add: dep_ok_def)
  ultimately show ?thesis by blast
next
  case (Some t)
  then have t: "t \<in> set ns" "node_id t = d"
    using find_node_SomeD by blast+
  from Some have ok: "dep_ok ns d \<longleftrightarrow> 75 \<le> progress t"
    by (simp add: dep_ok_def)
  have "u = t" if "u \<in> set ns" "node_id u = d" for u
    using same_id_same_node[OF assms t(1) that(1)] that(2) t(2) by simp
  with t ok show ?thesis by blast
qed

lemma nodeMap_upto_Suc:
  "nodeMap_upto ns (Suc k) = (nodeMap_upto ns k)(node_id (ns ! k) \<mapsto> k)"
  by (simp add: nodeMap_upto_def)

lemma nodeMap_upto_Some:
  "nodeMap_upto ns k d = Some j \<Longrightarrow> j < k \<and> node_id (ns ! j) = d"
proof (induction k)
  case 0
  then show ?case by (simp add: nodeMap_upto_def)
next
  case (Suc k)
  then show ?case
    by (auto simp: nodeMap_upto_Suc less_Suc_eq split: if_splits)
qed

lemma nodeMap_upto_None:
  "nodeMap_upto ns k d = None \<longleftrightarrow> (\<forall>j<k. node_id (ns ! j) \<noteq> d)"
proof (induction k)
  case 0
  then show ?case by (simp add: nodeMap_upto_def)
next
  case (Suc k)
  then show ?case
    by (auto simp: nodeMap_upto_Suc less_Suc_eq)
qed

lemma build_nodeMap_Some:
  "build_nodeMap ns d = Some j \<Longrightarrow> j < length ns \<and> node_id (ns ! j) = d"
  using nodeMap_upto_Some[of ns "length ns" d j]
  by (simp add: build_nodeMap_def nodeMap_upto_def)

lemma build_nodeMap_None:
  "build_nodeMap ns d = None \<longleftrightarrow> d \<notin> node_id ` set ns"
proof -
  have "build_nodeMap ns d = None \<longleftrightarrow> (\<forall>j<length ns. node_id (ns ! j) \<noteq> d)"
    using nodeMap_upto_None[of ns "length ns" d]
    by (simp add: build_nodeMap_def nodeMap_upto_def)
  also have "\<dots> \<longleftrightarrow> (\<forall>t\<in>set ns. node_id t \<noteq> d)"
    by (metis in_set_conv_nth)
  also have "\<dots> \<longleftrightarrow> d \<notin> node_id ` set ns"
    by blast
  finally show ?thesis .
qed

lemma dep_ok_dom_iff:
  assumes "distinct (map node_id ns)"
  shows "dep_ok_dom (build_nodeMap ns) ns d \<longleftrightarrow> (\<exists>t\<in>set ns. node_id t = d \<and> 75 \<le> progress t)"
proof (cases "build_nodeMap ns d")
  case None
  then have "\<not> dep_ok_dom (build_nodeMap ns) ns d"
    by (simp add: dep_ok_dom_def)
  moreover from None have "d \<notin> node_id ` set ns"
    by (simp add: build_nodeMap_None)
  ultimately show ?thesis by blast
next
  case (Some j)
  then have j: "j < length ns" "node_id (ns ! j) = d"
    using build_nodeMap_Some by blast+
  then have mem: "ns ! j \<in> set ns" by simp
  from Some have ok: "dep_ok_dom (build_nodeMap ns) ns d \<longleftrightarrow> 75 \<le> progress (ns ! j)"
    by (simp add: dep_ok_dom_def)
  have "u = ns ! j" if "u \<in> set ns" "node_id u = d" for u
    using same_id_same_node[OF assms mem that(1)] that(2) j(2) by simp
  with mem j(2) ok show ?thesis by blast
qed

lemma unlock_step_eq:
  "unlock_step m i cur =
   cur[i := (cur ! i)\<lparr>unlocked := list_all (dep_ok_dom m cur) (dependencies (cur ! i))\<rparr>]"
  by (simp add: unlock_step_def)

lemma dep_ok_dom_cong:
  "(\<And>j. progress (cur ! j) = progress (ns ! j)) \<Longrightarrow> dep_ok_dom m cur = dep_ok_dom m ns"
  by (auto simp: dep_ok_dom_def fun_eq_iff split: option.splits)

lemma unlock_fold_invariant:
  assumes "k \<le> length ns"
  shows "length (fold (unlock_step m) [0..<k] ns) = length ns \<and>
         (\<forall>j. j < k \<longrightarrow> fold (unlock_step m) [0..<k] ns ! j = unlock_of m ns (ns ! j)) \<and>
         (\<forall>j. k \<le> j \<longrightarrow> fold (unlock_step m) [0..<k] ns ! j = ns ! j)"
  using assms
proof (induction k)
  case 0
  then show ?case by simp
next
  case (Suc k)
  define cur where "cur = fold (unlock_step m) [0..<k] ns"
  from Suc have len: "length cur = length ns"
    and lo: "\<And>j. j < k \<Longrightarrow> cur ! j = unlock_of m ns (ns ! j)"
    and hi: "\<And>j. k \<le> j \<Longrightarrow> cur ! j = ns ! j"
    by (simp_all add: cur_def)
  have "progress (cur ! j) = progress (ns ! j)" for j
    using lo[of j] hi[of j] by (cases "j < k") (simp_all add: unlock_of_def)
  then have ok: "dep_ok_dom m cur = dep_ok_dom m ns"
    by (rule dep_ok_dom_cong)
  have step: "fold (unlock_step m) [0..<Suc k] ns = cur[k := unlock_of m ns (ns ! k)]"
    using hi[of k] by (simp add: cur_def[symmetric] unlock_step_eq ok unlock_of_def)
  from Suc.prems len have k: "k < length cur" by simp
  have "length (cur[k := unlock_of m ns (ns ! k)]) = length ns"
    using len by simp
  moreover have "cur[k := unlock_of m ns (ns ! k)] ! j = unlock_of m ns (ns ! j)"
    if "j < Suc k" for j
    using that k lo[of j] by (cases "j = k") simp_all
  moreover have "cur[k := unlock_of m ns (ns ! k)] ! j = ns ! j" if "Suc k \<le> j" for j
    using that hi[of j] by simp
  ultimately show ?case
    unfolding step by blast
qed

lemma computeUnlocks_dom_eq_map:
  "computeUnlocks_dom m ns =
   map (\<lambda>n. n\<lparr>unlocked := list_all (dep_ok_dom m ns) (dependencies n)\<rparr>) ns"
proof -
  have fold_eq: "computeUnlocks_dom m ns = fold (unlock_step m) [0..<length ns] ns"
    by (simp add: computeUnlocks_dom_def unlock_step_def[abs_def])
  show ?thesis
    unfolding fold_eq
    using unlock_fold_invariant[of "length ns" ns m]
    by (intro nth_equalityI) (simp_all add: unlock_of_def)
qed


lemma length_update_nodes: "length (update_nodes i v ns) = length ns"
  by (simp add: update_nodes_def)

lemma update_nodes_nth:
  "k < length ns \<Longrightarrow>
   update_nodes i v ns ! k = (if node_id (ns ! k) = i then (ns ! k)\<lparr>progress := v\<rparr> else ns ! k)"
  by (simp add: update_nodes_def)

lemma find_node_update_nodes:
  "find_node (update_nodes p v ns) d =
   map_option (\<lambda>n. if node_id n = p then n\<lparr>progress := v\<rparr> else n) (find_node ns d)"
  unfolding find_node_def update_nodes_def
  by (rule find_map_preserving) simp

lemma dep_ok_update_same: "v < 75 \<Longrightarrow> \<not> dep_ok (update_nodes p v ns) p"
proof (cases "find_node ns p")
  case None
  then show ?thesis
    by (simp add: dep_ok_def find_node_update_nodes)
next
  case (Some t)
  assume "v < 75"
  moreover from Some have "node_id t = p"
    using find_node_SomeD by blast
  ultimately show ?thesis
    using Some by (simp add: dep_ok_def find_node_update_nodes)
qed

lemma dep_ok_update_other: "d \<noteq> p \<Longrightarrow> dep_ok (update_nodes p v ns) d = dep_ok ns d"
proof (cases "find_node ns d")
  case None
  then show ?thesis
    by (simp add: dep_ok_def find_node_update_nodes)
next
  case (Some t)
  assume "d \<noteq> p"
  moreover from Some have "node_id t = d"
    using find_node_SomeD by blast
  ultimately show ?thesis
    using Some by (simp add: dep_ok_def find_node_update_nodes)
qed

lemma unlocked_after_update:
  "k < length ns \<Longrightarrow>
   unlocked (computeUnlocks (update_nodes p v ns) ! k) =
   list_all (dep_ok (update_nodes p v ns)) (dependencies (ns ! k))"
  by (simp add: computeUnlocks_nth length_update_nodes update_nodes_nth)

lemma build_nodeMap_index:
  assumes "distinct (map node_id ns)" and "build_nodeMap ns d = Some j" and "k < length ns"
    and "node_id (ns ! k) = d"
  shows "j = k"
proof -
  from assms(2) have j: "j < length ns" "node_id (ns ! j) = d"
    using build_nodeMap_Some by blast+
  with assms(3,4) have "map node_id ns ! j = map node_id ns ! k"
    by simp
  moreover from j assms(3) have "j < length (map node_id ns)" "k < length (map node_id ns)"
    by simp_all
  ultimately show ?thesis
    using assms(1) by (simp only: nth_eq_iff_index_eq)
qed

lemma dep_ok_dom_assign_same:
  assumes "distinct (map node_id ns)" and "k < length ns" and "v < 75"
  shows "\<not> dep_ok_dom (build_nodeMap ns) (ns[k := (ns ! k)\<lparr>progress := v\<rparr>]) (node_id (ns ! k))"
proof (cases "build_nodeMap ns (node_id (ns ! k))")
  case None
  then show ?thesis by (simp add: dep_ok_dom_def)
next
  case (Some j)
  have "j = k"
    using build_nodeMap_index[OF assms(1) Some assms(2)] by simp
  with Some assms(2,3) show ?thesis
    by (simp add: dep_ok_dom_def)
qed

lemma dep_ok_dom_assign_other:
  assumes "d \<noteq> node_id (ns ! k)"
  shows "dep_ok_dom (build_nodeMap ns) (ns[k := (ns ! k)\<lparr>progress := v\<rparr>]) d =
         dep_ok_dom (build_nodeMap ns) ns d"
proof (cases "build_nodeMap ns d")
  case None
  then show ?thesis by (simp add: dep_ok_dom_def)
next
  case (Some j)
  then have "node_id (ns ! j) = d"
    using build_nodeMap_Some by blast
  with assms have "j \<noteq> k" by auto
  with Some show ?thesis
    by (simp add: dep_ok_dom_def)
qed

lemma unlocked_dom_after_assign:
  "i < length ns \<Longrightarrow>
   unlocked (computeUnlocks_dom m (ns[k := (ns ! k)\<lparr>progress := v\<rparr>]) ! i) =
   list_all (dep_ok_dom m (ns[k := (ns ! k)\<lparr>progress := v\<rparr>])) (dependencies (ns ! i))"
  by (cases "i = k") (simp_all add: computeUnlocks_dom_eq_map)

section \<open>Properties of the progress update\<close>

lemma nodes_updateProgress:
  "nodes (snd (updateProgress i v st)) =
   (if available (localStorage st) then computeUnlocks (update_nodes i v (nodes st)) else nodes st)"
  by (simp add: updateProgress_def setItem_def)

lemma updated_node_nth:
  "k < length ns \<Longrightarrow>
   computeUnlocks (update_nodes i v ns) ! k =
   (if node_id (ns ! k) = i then (ns ! k)\<lparr>progress := v\<rparr> else ns ! k)
     \<lparr>unlocked := list_all (dep_ok (update_nodes i v ns)) (dependencies (ns ! k))\<rparr>"
  by (simp add: computeUnlocks_nth length_update_nodes update_nodes_nth)

lemma graph_nodes_select_onchange:
  "graph_nodes (snd (select_onchange k v d)) =
   (if available (dom_storage d)
    then computeUnlocks_dom (nodeMap d) ((graph_nodes d)[k := (graph_nodes d ! k)\<lparr>progress := v\<rparr>])
    else (graph_nodes d)[k := (graph_nodes d ! k)\<lparr>progress := v\<rparr>])"
  by (simp add: select_onchange_def saveProgress_def setItem_def Let_def)

section \<open>Properties of import and export\<close>

lemma get_prop_Inl_iff: "get_prop v k = Inl e \<longleftrightarrow> v = JNull \<and> e = TypeError"
  by (cases v) auto

lemma has_id_not_null: "has_id m i \<Longrightarrow> m \<noteq> JNull"
  by (auto simp: has_id_def)

lemma has_id_unique: "has_id m i \<Longrightarrow> has_id m j \<Longrightarrow> i = j"
  by (simp add: has_id_def)

lemma find_entry_Cons:
  "find_entry (e # es) i =
   (if e = JNull then Inl TypeError else if has_id e i then Inr (Some e) else find_entry es i)"
  by (cases e) (simp_all add: has_id_def)

lemma find_entry_total: "JNull \<notin> set es \<Longrightarrow> \<exists>r. find_entry es i = Inr r"
  by (induction es) (auto simp add: find_entry_Cons simp del: find_entry.simps(2))

lemma find_entry_SomeD: "find_entry es i = Inr (Some m) \<Longrightarrow> m \<in> set es \<and> has_id m i"
  by (induction es) (auto simp add: find_entry_Cons simp del: find_entry.simps(2) split: if_splits)

lemma find_entry_absent:
  "\<forall>e\<in>set es. \<not> has_id e i \<Longrightarrow> find_entry es i \<noteq> Inr (Some m)"
  using find_entry_SomeD by blast

lemma find_entry_first:
  "\<forall>e\<in>set es1. \<not> has_id e i \<and> e \<noteq> JNull \<Longrightarrow> has_id m i \<Longrightarrow>
   find_entry (es1 @ m # es2) i = Inr (Some m)"
  by (induction es1) (auto simp add: find_entry_Cons has_id_not_null simp del: find_entry.simps(2))

lemma find_entry_drop:
  "\<not> has_id e i \<Longrightarrow> e \<noteq> JNull \<Longrightarrow> find_entry (es1 @ e # es2) i = find_entry (es1 @ es2) i"
  by (induction es1) (simp_all add: find_entry_Cons del: find_entry.simps(2))

lemma find_entry_stops:
  "has_id e i \<Longrightarrow> find_entry (es1 @ e # es2) i = find_entry (es1 @ [e]) i"
  by (induction es1) (simp_all add: find_entry_Cons has_id_not_null del: find_entry.simps(2))

lemma find_entry_later_duplicate:
  assumes "has_id e i" and "has_id d i"
  shows "find_entry (es1 @ e # es2 @ d # es3) j = find_entry (es1 @ e # es2 @ es3) j"
proof (cases "j = i")
  case True
  with assms(1) show ?thesis
    by (simp add: find_entry_stops[of e i es1 "es2 @ d # es3"] find_entry_stops[of e i es1 "es2 @ es3"])
next
  case False
  with assms(2) have "\<not> has_id d j"
    using has_id_unique by blast
  moreover from assms(2) have "d \<noteq> JNull"
    by (rule has_id_not_null)
  ultimately have "find_entry ((es1 @ e # es2) @ d # es3) j = find_entry ((es1 @ e # es2) @ es3) j"
    by (rule find_entry_drop)
  then show ?thesis by simp
qed

lemma import_node_cong:
  "find_entry arr (node_id n) = find_entry arr' (node_id n) \<Longrightarrow>
   import_node arr n ls = import_node arr' n ls"
  by (simp add: import_node_def)

lemma import_nodes_cong:
  "(\<And>n. n \<in> set ns \<Longrightarrow> find_entry arr (node_id n) = find_entry arr' (node_id n)) \<Longrightarrow>
   import_nodes arr ns ls = import_nodes arr' ns ls"
proof (induction ns arbitrary: ls)
  case Nil
  then show ?case by simp
next
  case (Cons n ns)
  have 1: "import_node arr n ls = import_node arr' n ls"
    by (rule import_node_cong) (simp add: Cons.prems)
  have 2: "import_nodes arr ns ls' = import_nodes arr' ns ls'" for ls'
    by (rule Cons.IH) (simp add: Cons.prems)
  show ?case by (simp add: 1 2 split: prod.splits sum.splits)
qed

lemma import_node_ok:
  assumes "JNull \<notin> set arr" and "available ls"
  shows "\<exists>ls'. import_node arr n ls = (Inr (imported arr n), ls') \<and> available ls'"
proof -
  from assms(1) obtain r where r: "find_entry arr (node_id n) = Inr r"
    using find_entry_total by blast
  show ?thesis
  proof (cases r)
    case None
    with r assms(2) show ?thesis
      by (simp add: import_node_def imported_def)
  next
    case (Some m)
    with r have "has_id m (node_id n)"
      using find_entry_SomeD by blast
    then have "m \<noteq> JNull" by (rule has_id_not_null)
    then obtain q where q: "get_prop m ''progress'' = Inr q"
      by (cases m) simp_all
    with r Some assms(2) show ?thesis
      by (cases "as_number q") (simp_all add: import_node_def imported_def setItem_def Let_def)
  qed
qed

lemma import_nodes_ok:
  "JNull \<notin> set arr \<Longrightarrow> available ls \<Longrightarrow>
   \<exists>ls'. import_nodes arr ns ls = (Inr (map (imported arr) ns), ls') \<and> available ls'"
proof (induction ns arbitrary: ls)
  case Nil
  then show ?case by simp
next
  case (Cons n ns)
  from Cons.prems obtain ls1 where
    1: "import_node arr n ls = (Inr (imported arr n), ls1)" "available ls1"
    using import_node_ok by blast
  from Cons.IH[OF Cons.prems(1) 1(2)] obtain ls2 where
    2: "import_nodes arr ns ls1 = (Inr (map (imported arr) ns), ls2)" "available ls2"
    by blast
  from 1 2 show ?case by simp
qed

lemma importProgress_array:
  assumes "JSON_parse text = Some (JArr arr)" and "JNull \<notin> set arr"
    and "available (localStorage st)"
  shows "fst (importProgress JSON_parse text st) = Updated"
    and "nodes (snd (importProgress JSON_parse text st)) =
         computeUnlocks (map (imported arr) (nodes st))"
proof -
  from assms(2,3) obtain ls' where
    "import_nodes arr (nodes st) (localStorage st) = (Inr (map (imported arr) (nodes st)), ls')"
    using import_nodes_ok by blast
  with assms(1) show "fst (importProgress JSON_parse text st) = Updated"
    and "nodes (snd (importProgress JSON_parse text st)) =
         computeUnlocks (map (imported arr) (nodes st))"
    by (simp_all add: importProgress_def)
qed

lemma imported_fields:
  "node_id (imported arr n) = node_id n" "title (imported arr n) = title n"
  "description (imported arr n) = description n" "dependencies (imported arr n) = dependencies n"
  by (simp_all add: imported_def split: sum.splits option.splits)

lemma imported_absent: "\<forall>e\<in>set arr. \<not> has_id e (node_id n) \<Longrightarrow> imported arr n = n"
  using find_entry_absent[of arr "node_id n"]
  by (auto simp: imported_def split: sum.splits option.splits)

lemma as_number_Some_iff: "as_number v = Some p \<longleftrightarrow> v = Some (JNum p)"
  by (cases v rule: as_number.cases) simp_all

lemma imported_number:
  "find_entry arr (node_id n) = Inr (Some m) \<Longrightarrow> get_prop m ''progress'' = Inr (Some (JNum p)) \<Longrightarrow>
   imported arr n = n\<lparr>progress := max 0 (min 100 p)\<rparr>"
  by (simp add: imported_def)

lemma imported_not_number:
  assumes "find_entry arr (node_id n) = Inr (Some m)"
    and "\<forall>p. get_prop m ''progress'' \<noteq> Inr (Some (JNum p))"
  shows "imported arr n = n"
proof (cases "get_prop m ''progress''")
  case (Inl e)
  with assms(1) show ?thesis by (simp add: imported_def)
next
  case (Inr v)
  with assms(2) have "as_number v = None"
    by (cases "as_number v") (simp_all add: as_number_Some_iff)
  with Inr assms(1) show ?thesis by (simp add: imported_def)
qed

lemma progress_computeUnlocks_map:
  "k < length ns \<Longrightarrow> progress (computeUnlocks (map f ns) ! k) = progress (f (ns ! k))"
  by (simp add: computeUnlocks_nth)

lemma node_id_computeUnlocks_map:
  "k < length ns \<Longrightarrow> node_id (computeUnlocks (map f ns) ! k) = node_id (f (ns ! k))"
  by (simp add: computeUnlocks_nth)


lemma importProgress_cong:
  assumes "JSON_parse t1 = Some (JArr arr1)" and "JSON_parse t2 = Some (JArr arr2)"
    and "\<And>n. n \<in> set (nodes st) \<Longrightarrow> find_entry arr1 (node_id n) = find_entry arr2 (node_id n)"
  shows "importProgress JSON_parse t1 st = importProgress JSON_parse t2 st"
proof -
  have "import_nodes arr1 (nodes st) (localStorage st) = import_nodes arr2 (nodes st) (localStorage st)"
    using assms(3) by (rule import_nodes_cong)
  with assms(1,2) show ?thesis
    by (simp add: importProgress_def)
qed

lemma progressData_entries: "progressData ns = JArr (map entry_of ns)"
  by (simp add: progressData_def entry_of_def)

lemma has_id_entry_of: "has_id (entry_of n) i \<longleftrightarrow> node_id n = i"
  by (simp add: has_id_def entry_of_def)

lemma entry_of_not_null: "entry_of n \<noteq> JNull"
  by (simp add: entry_of_def)

lemma progress_entry_of: "get_prop (entry_of n) ''progress'' = Inr (Some (JNum (progress n)))"
  by (simp add: entry_of_def)

lemma find_entry_export:
  "distinct (map node_id ns) \<Longrightarrow> m \<in> set ns \<Longrightarrow>
   find_entry (map entry_of ns) (node_id m) = Inr (Some (entry_of m))"
proof (induction ns)
  case Nil
  then show ?case by simp
next
  case (Cons x ns)
  show ?case
  proof (cases "m = x")
    case True
    then show ?thesis
      by (simp add: find_entry_Cons entry_of_not_null has_id_entry_of del: find_entry.simps(2))
  next
    case False
    with Cons.prems have m: "m \<in> set ns" by simp
    with Cons.prems(1) have "node_id x \<noteq> node_id m" by auto
    moreover from Cons.IH Cons.prems(1) m
    have "find_entry (map entry_of ns) (node_id m) = Inr (Some (entry_of m))" by simp
    ultimately show ?thesis
      by (simp add: find_entry_Cons entry_of_not_null has_id_entry_of del: find_entry.simps(2))
  qed
qed

lemma imported_export:
  assumes "distinct (map node_id ns0)" and "m \<in> set ns0" and "node_id n = node_id m"
    and "0 \<le> progress m" and "progress m \<le> 100"
  shows "progress (imported (map entry_of ns0) n) = progress m"
proof -
  from assms(1,2) have "find_entry (map entry_of ns0) (node_id m) = Inr (Some (entry_of m))"
    by (rule find_entry_export)
  with assms(3) have "find_entry (map entry_of ns0) (node_id n) = Inr (Some (entry_of m))"
    by simp
  then have "imported (map entry_of ns0) n = n\<lparr>progress := max 0 (min 100 (progress m))\<rparr>"
    using progress_entry_of by (rule imported_number)
  with assms(4,5) show ?thesis by simp
qed

section \<open>Claims about the unlock rule\<close>

text \<open>
  C1.  With unique topic ids, the flag that \<^verbatim>\<open>computeUnlocks\<close> gives a topic is true
  exactly when every id among its prerequisites belongs to a topic of the set whose
  progress is at least 75.  This holds for the function of react_app.js and for the one
  of script.js.  A topic without prerequisites is therefore unlocked, an id that no
  topic carries keeps the topic locked, and the threshold is \<open>75 \<le> progress\<close>: 75
  passes, 74 does not.
\<close>

theorem unlocked_iff_prerequisites:
  assumes "distinct (map node_id ns)" and "i < length ns"
  shows "(unlocked (computeUnlocks ns ! i) \<longleftrightarrow>
            (\<forall>p\<in>set (dependencies (ns ! i)). \<exists>t\<in>set ns. node_id t = p \<and> 75 \<le> progress t)) \<and>
         (unlocked (computeUnlocks_dom (build_nodeMap ns) ns ! i) \<longleftrightarrow>
            (\<forall>p\<in>set (dependencies (ns ! i)). \<exists>t\<in>set ns. node_id t = p \<and> 75 \<le> progress t))"
proof -
  have "unlocked (computeUnlocks ns ! i) = list_all (dep_ok ns) (dependencies (ns ! i))"
    using assms(2) by (simp add: computeUnlocks_nth)
  moreover have "unlocked (computeUnlocks_dom (build_nodeMap ns) ns ! i) =
                 list_all (dep_ok_dom (build_nodeMap ns) ns) (dependencies (ns ! i))"
    using assms(2) by (simp add: computeUnlocks_dom_eq_map)
  ultimately show ?thesis
    using assms(1) by (simp add: list_all_iff dep_ok_iff dep_ok_dom_iff)
qed

theorem unlocked_iff_prerequisites_witness:
  "distinct (map node_id (abc 75 74 0)) \<and> 2 < length (abc 75 74 0) \<and>
   unlocked (computeUnlocks (abc 75 74 0) ! 0) \<and>
   unlocked (computeUnlocks (abc 75 74 0) ! 1) \<and>
   \<not> unlocked (computeUnlocks (abc 75 74 0) ! 2) \<and>
   unlocked (computeUnlocks (abc 75 75 0) ! 2) \<and>
   \<not> unlocked (computeUnlocks_dom (build_nodeMap (abc 75 74 0)) (abc 75 74 0) ! 2)"
proof -
  have d: "distinct (map node_id (abc a b c))" for a b c
    by (simp add: abc_def mk_node_def)
  have l: "0 < length (abc a b c)" "1 < length (abc a b c)" "2 < length (abc a b c)" for a b c
    by (simp_all add: abc_def)
  show ?thesis
    using unlocked_iff_prerequisites[OF d l(1), of 75 74 0]
      unlocked_iff_prerequisites[OF d l(2), of 75 74 0]
      unlocked_iff_prerequisites[OF d l(3), of 75 74 0]
      unlocked_iff_prerequisites[OF d l(3), of 75 75 0]
    by (simp add: abc_def mk_node_def)
qed

text \<open>
  C7.  \<^verbatim>\<open>computeUnlocks\<close> applied to its own result returns that result: the flags
  of the second run are those of the first.
\<close>

theorem computeUnlocks_idempotent:
  "computeUnlocks (computeUnlocks ns) = computeUnlocks ns \<and>
   map unlocked (computeUnlocks (computeUnlocks ns)) = map unlocked (computeUnlocks ns)"
  by (simp add: computeUnlocks_twice)

text \<open>
  C6, as the code has it.  When a prerequisite \<open>p\<close> of a topic is set to a value below
  75, the topic is locked after the recomputation, and every topic that does not list
  \<open>p\<close> among its own prerequisites keeps the flag it would have had.  The other topics
  that list \<open>p\<close> are locked as well: in the built-in curriculum, lowering
  \<open>basics\<close> locks \<open>datastructures\<close> and \<open>algorithms\<close> together.  The first two
  parts are about react_app.js, the last about script.js, where the handler assigns to
  the object at index \<open>k\<close>.
\<close>

theorem lowering_prerequisite_locks_dependents:
  assumes "i < length ns" and "p \<in> set (dependencies (ns ! i))" and "v < 75"
  shows "\<not> unlocked (computeUnlocks (update_nodes p v ns) ! i) \<and>
         (\<forall>j<length ns. p \<notin> set (dependencies (ns ! j)) \<longrightarrow>
            unlocked (computeUnlocks (update_nodes p v ns) ! j) = unlocked (computeUnlocks ns ! j)) \<and>
         (distinct (map node_id ns) \<and> k < length ns \<and> node_id (ns ! k) = p \<longrightarrow>
            \<not> unlocked (computeUnlocks_dom (build_nodeMap ns) (ns[k := (ns ! k)\<lparr>progress := v\<rparr>]) ! i) \<and>
            (\<forall>j<length ns. p \<notin> set (dependencies (ns ! j)) \<longrightarrow>
               unlocked (computeUnlocks_dom (build_nodeMap ns) (ns[k := (ns ! k)\<lparr>progress := v\<rparr>]) ! j) =
               unlocked (computeUnlocks_dom (build_nodeMap ns) ns ! j)))"
proof -
  let ?ns' = "ns[k := (ns ! k)\<lparr>progress := v\<rparr>]"
  have react_locked: "\<not> unlocked (computeUnlocks (update_nodes p v ns) ! i)"
  proof -
    have "\<not> dep_ok (update_nodes p v ns) p"
      using assms(3) by (rule dep_ok_update_same)
    with assms(2) have "\<not> list_all (dep_ok (update_nodes p v ns)) (dependencies (ns ! i))"
      unfolding list_all_iff by blast
    with assms(1) show ?thesis
      by (simp add: unlocked_after_update)
  qed
  have react_frame:
    "unlocked (computeUnlocks (update_nodes p v ns) ! j) = unlocked (computeUnlocks ns ! j)"
    if j: "j < length ns" "p \<notin> set (dependencies (ns ! j))" for j
  proof -
    have "dep_ok (update_nodes p v ns) d = dep_ok ns d" if "d \<in> set (dependencies (ns ! j))" for d
    proof -
      from that j(2) have "d \<noteq> p" by blast
      then show ?thesis by (rule dep_ok_update_other)
    qed
    then have "list_all (dep_ok (update_nodes p v ns)) (dependencies (ns ! j)) =
               list_all (dep_ok ns) (dependencies (ns ! j))"
      unfolding list_all_iff by simp
    with j(1) show ?thesis
      by (simp add: unlocked_after_update computeUnlocks_nth)
  qed
  have dom_locked: "\<not> unlocked (computeUnlocks_dom (build_nodeMap ns) ?ns' ! i)"
    if h: "distinct (map node_id ns)" "k < length ns" "node_id (ns ! k) = p"
  proof -
    have "\<not> dep_ok_dom (build_nodeMap ns) ?ns' (node_id (ns ! k))"
      using h(1,2) assms(3) by (rule dep_ok_dom_assign_same)
    with h(3) have "\<not> dep_ok_dom (build_nodeMap ns) ?ns' p" by simp
    with assms(2) have "\<not> list_all (dep_ok_dom (build_nodeMap ns) ?ns') (dependencies (ns ! i))"
      unfolding list_all_iff by blast
    with assms(1) show ?thesis
      by (simp add: unlocked_dom_after_assign)
  qed
  have dom_frame:
    "unlocked (computeUnlocks_dom (build_nodeMap ns) ?ns' ! j) =
     unlocked (computeUnlocks_dom (build_nodeMap ns) ns ! j)"
    if h: "node_id (ns ! k) = p" and j: "j < length ns" "p \<notin> set (dependencies (ns ! j))" for j
  proof -
    have "dep_ok_dom (build_nodeMap ns) ?ns' d = dep_ok_dom (build_nodeMap ns) ns d"
      if "d \<in> set (dependencies (ns ! j))" for d
    proof -
      from that j(2) h have "d \<noteq> node_id (ns ! k)" by blast
      then show ?thesis by (rule dep_ok_dom_assign_other)
    qed
    then have "list_all (dep_ok_dom (build_nodeMap ns) ?ns') (dependencies (ns ! j)) =
               list_all (dep_ok_dom (build_nodeMap ns) ns) (dependencies (ns ! j))"
      unfolding list_all_iff by simp
    moreover have "unlocked (computeUnlocks_dom (build_nodeMap ns) ns ! j) =
                   list_all (dep_ok_dom (build_nodeMap ns) ns) (dependencies (ns ! j))"
      using j(1) by (simp add: computeUnlocks_dom_eq_map)
    ultimately show ?thesis
      using j(1) by (simp add: unlocked_dom_after_assign)
  qed
  from react_locked react_frame dom_locked dom_frame show ?thesis
    by blast
qed

theorem lowering_prerequisite_locks_dependents_witness:
  "1 < length (update_nodes ''basics'' 75 initialNodes) \<and>
   ''basics'' \<in> set (dependencies (update_nodes ''basics'' 75 initialNodes ! 1)) \<and>
   (50::int) < 75 \<and>
   \<not> unlocked (computeUnlocks (update_nodes ''basics'' 50 (update_nodes ''basics'' 75 initialNodes)) ! 1) \<and>
   ''basics'' \<notin> set (dependencies (update_nodes ''basics'' 75 initialNodes ! 3)) \<and>
   unlocked (computeUnlocks (update_nodes ''basics'' 50 (update_nodes ''basics'' 75 initialNodes)) ! 3) =
     unlocked (computeUnlocks (update_nodes ''basics'' 75 initialNodes) ! 3) \<and>
   distinct (map node_id (update_nodes ''basics'' 75 initialNodes)) \<and>
   node_id (update_nodes ''basics'' 75 initialNodes ! 0) = ''basics'' \<and>
   \<not> unlocked (computeUnlocks_dom (build_nodeMap (update_nodes ''basics'' 75 initialNodes))
        ((update_nodes ''basics'' 75 initialNodes)
           [0 := (update_nodes ''basics'' 75 initialNodes ! 0)\<lparr>progress := 50\<rparr>]) ! 1)"
proof -
  let ?ns = "update_nodes ''basics'' 75 initialNodes"
  have h1: "1 < length ?ns"
    by (simp add: initialNodes_def update_nodes_def)
  have h2: "''basics'' \<in> set (dependencies (?ns ! 1))"
    by (simp add: initialNodes_def update_nodes_def mk_node_def)
  have h3: "(50::int) < 75" by simp
  have h4: "3 < length ?ns"
    by (simp add: initialNodes_def update_nodes_def)
  have h5: "''basics'' \<notin> set (dependencies (?ns ! 3))"
    by (simp add: initialNodes_def update_nodes_def mk_node_def)
  have h6: "distinct (map node_id ?ns)" "0 < length ?ns" "node_id (?ns ! 0) = ''basics''"
    by (simp_all add: initialNodes_def update_nodes_def mk_node_def)
  from lowering_prerequisite_locks_dependents[OF h1 h2 h3, of 0] h1 h2 h3 h4 h5 h6
  show ?thesis by blast
qed

text \<open>
  C6, as the spec has it, fails on the built-in curriculum: \<open>basics\<close> is a prerequisite
  of \<open>datastructures\<close> (index 1); lowering it from 75 to 50 also changes the flag of
  \<open>algorithms\<close> (index 2), a topic other than \<open>datastructures\<close>.
\<close>

theorem lowering_prerequisite_counterexample:
  "''basics'' \<in> set (dependencies (initialNodes ! 1)) \<and>
   unlocked (computeUnlocks (update_nodes ''basics'' 75 initialNodes) ! 1) \<and>
   \<not> unlocked (computeUnlocks (update_nodes ''basics'' 50 initialNodes) ! 1) \<and>
   node_id (initialNodes ! 2) = ''algorithms'' \<and>
   unlocked (computeUnlocks (update_nodes ''basics'' 75 initialNodes) ! 2) \<and>
   \<not> unlocked (computeUnlocks (update_nodes ''basics'' 50 initialNodes) ! 2)"
  by (simp add: initialNodes_def mk_node_def update_nodes_def computeUnlocks_def dep_ok_def find_node_def)


section \<open>Claims about the progress update\<close>

text \<open>
  C9.  \<^verbatim>\<open>updateProgress\<close> keeps the number of topics and, for each topic, its id,
  title, description and prerequisites; the progress of a topic with another id is
  unchanged.  This holds whether or not the storage write succeeds.
\<close>

theorem updateProgress_frame:
  "length (nodes (snd (updateProgress i v st))) = length (nodes st) \<and>
   (\<forall>k<length (nodes st).
      node_id (nodes (snd (updateProgress i v st)) ! k) = node_id (nodes st ! k) \<and>
      title (nodes (snd (updateProgress i v st)) ! k) = title (nodes st ! k) \<and>
      description (nodes (snd (updateProgress i v st)) ! k) = description (nodes st ! k) \<and>
      dependencies (nodes (snd (updateProgress i v st)) ! k) = dependencies (nodes st ! k) \<and>
      (node_id (nodes st ! k) \<noteq> i \<longrightarrow>
         progress (nodes (snd (updateProgress i v st)) ! k) = progress (nodes st ! k)))"
proof (cases "available (localStorage st)")
  case True
  then show ?thesis
    by (simp add: nodes_updateProgress length_computeUnlocks length_update_nodes updated_node_nth)
next
  case False
  then show ?thesis
    by (simp add: nodes_updateProgress)
qed

theorem updateProgress_frame_witness:
  "length (nodes (snd (updateProgress ''A'' 75 (app_abc 0 25 50)))) = 3 \<and>
   (1::nat) < length (nodes (app_abc 0 25 50)) \<and>
   node_id (nodes (app_abc 0 25 50) ! 1) \<noteq> ''A'' \<and>
   node_id (nodes (snd (updateProgress ''A'' 75 (app_abc 0 25 50))) ! 1) = ''B'' \<and>
   title (nodes (snd (updateProgress ''A'' 75 (app_abc 0 25 50))) ! 1) = ''Topic B'' \<and>
   description (nodes (snd (updateProgress ''A'' 75 (app_abc 0 25 50))) ! 1) = ''second'' \<and>
   dependencies (nodes (snd (updateProgress ''A'' 75 (app_abc 0 25 50))) ! 1) = [''A''] \<and>
   progress (nodes (snd (updateProgress ''A'' 75 (app_abc 0 25 50))) ! 1) = 25"
proof -
  have h: "(1::nat) < length (nodes (app_abc 0 25 50))"
    "node_id (nodes (app_abc 0 25 50) ! 1) \<noteq> ''A''"
    by (simp_all add: app_abc_def abc_def mk_node_def)
  have v: "node_id (nodes (app_abc 0 25 50) ! 1) = ''B''"
    "title (nodes (app_abc 0 25 50) ! 1) = ''Topic B''"
    "description (nodes (app_abc 0 25 50) ! 1) = ''second''"
    "dependencies (nodes (app_abc 0 25 50) ! 1) = [''A'']"
    "progress (nodes (app_abc 0 25 50) ! 1) = 25"
    "length (nodes (app_abc 0 25 50)) = 3"
    by (simp_all add: app_abc_def abc_def mk_node_def)
  note t = updateProgress_frame[of "''A''" 75 "app_abc 0 25 50"]
  from t have len: "length (nodes (snd (updateProgress ''A'' 75 (app_abc 0 25 50)))) =
                    length (nodes (app_abc 0 25 50))"
    by (rule conjunct1)
  from t h have
    "node_id (nodes (snd (updateProgress ''A'' 75 (app_abc 0 25 50))) ! 1) =
       node_id (nodes (app_abc 0 25 50) ! 1) \<and>
     title (nodes (snd (updateProgress ''A'' 75 (app_abc 0 25 50))) ! 1) =
       title (nodes (app_abc 0 25 50) ! 1) \<and>
     description (nodes (snd (updateProgress ''A'' 75 (app_abc 0 25 50))) ! 1) =
       description (nodes (app_abc 0 25 50) ! 1) \<and>
     dependencies (nodes (snd (updateProgress ''A'' 75 (app_abc 0 25 50))) ! 1) =
       dependencies (nodes (app_abc 0 25 50) ! 1) \<and>
     progress (nodes (snd (updateProgress ''A'' 75 (app_abc 0 25 50))) ! 1) =
       progress (nodes (app_abc 0 25 50) ! 1)"
    by blast
  with len h show ?thesis
    unfolding v by simp
qed

text \<open>
  C2, as the code has it.  The update path stores the value it is given, without
  clamping: after \<^verbatim>\<open>updateProgress(id, v)\<close> with working storage, the topic with that
  id has progress \<open>v\<close> and the storage holds \<open>String(v)\<close> under its key; this is
  \<open>min 100 (max 0 v)\<close> when \<open>v\<close> lies in \<open>[0, 100]\<close>, as the five values of the
  drop-down do.  The handler of script.js likewise leaves \<open>v\<close> in the object.
\<close>

theorem setProgress_stores_value_unclamped:
  assumes "available (localStorage st)" and "k < length (nodes st)"
    and "node_id (nodes st ! k) = i"
  shows "fst (updateProgress i v st) = Updated \<and>
         progress (nodes (snd (updateProgress i v st)) ! k) = v \<and>
         items (localStorage (snd (updateProgress i v st))) (''kpv-react-progress-'' @ i) =
           Some (String_of v) \<and>
         (0 \<le> v \<and> v \<le> 100 \<longrightarrow>
            progress (nodes (snd (updateProgress i v st)) ! k) = min 100 (max 0 v)) \<and>
         (j < length (graph_nodes d) \<longrightarrow>
            progress (graph_nodes (snd (select_onchange j v d)) ! j) = v)"
proof -
  have "progress (nodes (snd (updateProgress i v st)) ! k) = v"
    using assms by (simp add: nodes_updateProgress updated_node_nth)
  moreover have "fst (updateProgress i v st) = Updated"
    "items (localStorage (snd (updateProgress i v st))) (''kpv-react-progress-'' @ i) =
       Some (String_of v)"
    using assms(1) by (simp_all add: updateProgress_def setItem_def)
  moreover have "progress (graph_nodes (snd (select_onchange j v d)) ! j) = v"
    if "j < length (graph_nodes d)"
    using that by (simp add: graph_nodes_select_onchange computeUnlocks_dom_eq_map)
  ultimately show ?thesis by simp
qed

theorem setProgress_stores_value_unclamped_witness:
  "available (localStorage (app_abc 0 0 0)) \<and> 0 < length (nodes (app_abc 0 0 0)) \<and>
   node_id (nodes (app_abc 0 0 0) ! 0) = ''A'' \<and>
   fst (updateProgress ''A'' 75 (app_abc 0 0 0)) = Updated \<and>
   progress (nodes (snd (updateProgress ''A'' 75 (app_abc 0 0 0))) ! 0) = 75 \<and>
   progress (nodes (snd (updateProgress ''A'' 75 (app_abc 0 0 0))) ! 0) = min 100 (max 0 75) \<and>
   items (localStorage (snd (updateProgress ''A'' 75 (app_abc 0 0 0)))) ''kpv-react-progress-A'' =
     Some ''75'' \<and>
   0 < length (graph_nodes (dom_abc 0 0 0)) \<and>
   progress (graph_nodes (snd (select_onchange 0 75 (dom_abc 0 0 0))) ! 0) = 75"
proof -
  have h: "available (localStorage (app_abc 0 0 0))" "0 < length (nodes (app_abc 0 0 0))"
    "node_id (nodes (app_abc 0 0 0) ! 0) = ''A''"
    by (simp_all add: app_abc_def abc_def mk_node_def storage0_def)
  have g: "0 < length (graph_nodes (dom_abc 0 0 0))"
    by (simp add: dom_abc_def abc_def)
  have s: "String_of 75 = ''75''"
    by (simp add: String_of_def digit_char_def)
  from setProgress_stores_value_unclamped[OF h, of 75 0 "dom_abc 0 0 0"] h g s
  show ?thesis by simp
qed

text \<open>
  C2, as the spec has it, fails: 150 is stored as 150 by \<^verbatim>\<open>updateProgress\<close>, and
  -10 as -10 by the handler of script.js.
\<close>

theorem setProgress_clamps_counterexample:
  "fst (updateProgress ''A'' 150 (app_abc 0 0 0)) = Updated \<and>
   progress (nodes (snd (updateProgress ''A'' 150 (app_abc 0 0 0))) ! 0) = 150 \<and>
   progress (nodes (snd (updateProgress ''A'' 150 (app_abc 0 0 0))) ! 0) \<noteq> min 100 (max 0 150) \<and>
   progress (graph_nodes (snd (select_onchange 0 (- 10) (dom_abc 0 0 0))) ! 0) = - 10 \<and>
   progress (graph_nodes (snd (select_onchange 0 (- 10) (dom_abc 0 0 0))) ! 0) \<noteq> min 100 (max 0 (- 10))"
  by (simp add: updateProgress_def setItem_def app_abc_def dom_abc_def abc_def mk_node_def
      storage0_def update_nodes_def computeUnlocks_def graph_nodes_select_onchange
      computeUnlocks_dom_eq_map Let_def)

text \<open>
  C8, as the code has it.  Neither implementation catches a failing storage write.  In
  react_app.js the exception leaves \<^verbatim>\<open>updateProgress\<close> with the topics and the
  storage as they were; in script.js it leaves the handler after the assignment to
  \<^verbatim>\<open>node.progress\<close> and before \<^verbatim>\<open>computeUnlocks()\<close>.  When the write succeeds,
  the value is stored under the topic's key and the update is applied.
\<close>

theorem storage_failure_propagates:
  "(\<not> available (localStorage st) \<longrightarrow> updateProgress i v st = (Uncaught StorageError, st)) \<and>
   (\<not> available (dom_storage d) \<longrightarrow>
      select_onchange k v d =
        (Uncaught StorageError,
         d\<lparr>graph_nodes := (graph_nodes d)[k := (graph_nodes d ! k)\<lparr>progress := v\<rparr>]\<rparr>)) \<and>
   (available (localStorage st) \<longrightarrow>
      updateProgress i v st =
        (Updated,
         st\<lparr>nodes := computeUnlocks (update_nodes i v (nodes st)),
            localStorage := (localStorage st)
              \<lparr>items := (items (localStorage st))(''kpv-react-progress-'' @ i \<mapsto> String_of v)\<rparr>\<rparr>)) \<and>
   (available (dom_storage d) \<and> k < length (graph_nodes d) \<longrightarrow>
      fst (select_onchange k v d) = Updated \<and>
      items (dom_storage (snd (select_onchange k v d)))
        (''kpv-progress-'' @ node_id (graph_nodes d ! k)) = Some (String_of v))"
  by (simp add: updateProgress_def select_onchange_def saveProgress_def setItem_def Let_def)

theorem storage_failure_propagates_witness:
  "\<not> available (localStorage ((app_abc 0 0 0)\<lparr>localStorage := storage0\<lparr>available := False\<rparr>\<rparr>)) \<and>
   updateProgress ''A'' 75 ((app_abc 0 0 0)\<lparr>localStorage := storage0\<lparr>available := False\<rparr>\<rparr>) =
     (Uncaught StorageError, (app_abc 0 0 0)\<lparr>localStorage := storage0\<lparr>available := False\<rparr>\<rparr>) \<and>
   available (localStorage (app_abc 0 0 0)) \<and>
   fst (updateProgress ''A'' 75 (app_abc 0 0 0)) = Updated \<and>
   \<not> available (dom_storage ((dom_abc 0 0 0)\<lparr>dom_storage := storage0\<lparr>available := False\<rparr>\<rparr>)) \<and>
   fst (select_onchange 0 75 ((dom_abc 0 0 0)\<lparr>dom_storage := storage0\<lparr>available := False\<rparr>\<rparr>)) =
     Uncaught StorageError"
proof -
  let ?app = "(app_abc 0 0 0)\<lparr>localStorage := storage0\<lparr>available := False\<rparr>\<rparr>"
  let ?dom = "(dom_abc 0 0 0)\<lparr>dom_storage := storage0\<lparr>available := False\<rparr>\<rparr>"
  have h: "\<not> available (localStorage ?app)" "\<not> available (dom_storage ?dom)"
    by simp_all
  have a: "available (localStorage (app_abc 0 0 0))"
    by (simp add: app_abc_def storage0_def)
  from storage_failure_propagates[of ?app "''A''" 75 ?dom 0]
    storage_failure_propagates[of "app_abc 0 0 0" "''A''" 75 "dom_abc 0 0 0" 0] h a
  show ?thesis by simp
qed

text \<open>
  C8, as the spec has it, fails: with unavailable storage the exception is not caught;
  react_app.js does not apply the progress change, and script.js applies it but leaves
  the flag of the dependent topic \<open>B\<close> as it was.
\<close>

theorem save_catches_failure_counterexample:
  "fst (updateProgress ''A'' 75 ((app_abc 0 0 0)\<lparr>localStorage := storage0\<lparr>available := False\<rparr>\<rparr>)) =
     Uncaught StorageError \<and>
   progress (nodes (snd (updateProgress ''A'' 75
      ((app_abc 0 0 0)\<lparr>localStorage := storage0\<lparr>available := False\<rparr>\<rparr>))) ! 0) = 0 \<and>
   fst (select_onchange 0 75 ((dom_abc 0 0 0)\<lparr>dom_storage := storage0\<lparr>available := False\<rparr>\<rparr>)) =
     Uncaught StorageError \<and>
   progress (graph_nodes (snd (select_onchange 0 75
      ((dom_abc 0 0 0)\<lparr>dom_storage := storage0\<lparr>available := False\<rparr>\<rparr>))) ! 0) = 75 \<and>
   \<not> unlocked (graph_nodes (snd (select_onchange 0 75
      ((dom_abc 0 0 0)\<lparr>dom_storage := storage0\<lparr>available := False\<rparr>\<rparr>))) ! 1)"
  by (simp add: updateProgress_def select_onchange_def saveProgress_def setItem_def Let_def
      app_abc_def dom_abc_def abc_def mk_node_def)


section \<open>Claims about import and export\<close>

text \<open>
  C3, as the code has it.  \<^verbatim>\<open>importProgress\<close> rejects a file whose text
  \<^verbatim>\<open>JSON.parse\<close> cannot parse (the exception is caught and logged) and a file whose
  value is not an array (a silent return); in both cases topics, flags and storage are
  exactly as before.  An array is not rejected for an entry without \<^verbatim>\<open>id\<close>: every
  array without a \<^verbatim>\<open>null\<close> entry is imported, storage permitting.
\<close>

theorem import_rejects_unparseable_and_non_arrays:
  "(JSON_parse text = None \<longrightarrow> importProgress JSON_parse text st = (ParseError, st)) \<and>
   (\<forall>v. JSON_parse text = Some v \<and> (\<forall>arr. v \<noteq> JArr arr) \<longrightarrow>
      importProgress JSON_parse text st = (NotArray, st)) \<and>
   (\<forall>arr. JSON_parse text = Some (JArr arr) \<and> JNull \<notin> set arr \<and> available (localStorage st) \<longrightarrow>
      fst (importProgress JSON_parse text st) = Updated)"
proof (intro conjI allI impI)
  assume "JSON_parse text = None"
  then show "importProgress JSON_parse text st = (ParseError, st)"
    by (simp add: importProgress_def)
next
  fix v assume "JSON_parse text = Some v \<and> (\<forall>arr. v \<noteq> JArr arr)"
  then show "importProgress JSON_parse text st = (NotArray, st)"
    by (cases v) (simp_all add: importProgress_def)
next
  fix arr
  assume "JSON_parse text = Some (JArr arr) \<and> JNull \<notin> set arr \<and> available (localStorage st)"
  then show "fst (importProgress JSON_parse text st) = Updated"
    using importProgress_array(1)[of JSON_parse "text" arr st] by simp
qed

theorem import_rejects_unparseable_and_non_arrays_witness:
  "importProgress (\<lambda>t. t) None (app_abc 0 0 0) = (ParseError, app_abc 0 0 0) \<and>
   importProgress (\<lambda>t. t) (Some (JObj [(''id'', JStr ''A''), (''progress'', JNum 50)]))
     (app_abc 0 0 0) = (NotArray, app_abc 0 0 0) \<and>
   JNull \<notin> set [JObj [(''progress'', JNum 10)]] \<and>
   available (localStorage (app_abc 0 0 0)) \<and>
   fst (importProgress (\<lambda>t. t) (Some (JArr [JObj [(''progress'', JNum 10)]])) (app_abc 0 0 0)) =
     Updated"
proof -
  let ?obj = "JObj [(''id'', JStr ''A''), (''progress'', JNum 50)]"
  let ?arr = "[JObj [(''progress'', JNum 10)]]"
  have 1: "(\<lambda>t::json option. t) None = None" by simp
  have 2: "(\<lambda>t::json option. t) (Some ?obj) = Some ?obj \<and> (\<forall>arr. ?obj \<noteq> JArr arr)"
    by simp
  have 3: "(\<lambda>t::json option. t) (Some (JArr ?arr)) = Some (JArr ?arr) \<and> JNull \<notin> set ?arr \<and>
           available (localStorage (app_abc 0 0 0))"
    by (simp add: app_abc_def storage0_def)
  from import_rejects_unparseable_and_non_arrays[of "\<lambda>t. t" None "app_abc 0 0 0"] 1
  have a: "importProgress (\<lambda>t. t) None (app_abc 0 0 0) = (ParseError, app_abc 0 0 0)"
    by blast
  from import_rejects_unparseable_and_non_arrays[of "\<lambda>t. t" "Some ?obj" "app_abc 0 0 0"] 2
  have b: "importProgress (\<lambda>t. t) (Some ?obj) (app_abc 0 0 0) = (NotArray, app_abc 0 0 0)"
    by blast
  from import_rejects_unparseable_and_non_arrays[of "\<lambda>t. t" "Some (JArr ?arr)" "app_abc 0 0 0"] 3
  have c: "fst (importProgress (\<lambda>t. t) (Some (JArr ?arr)) (app_abc 0 0 0)) = Updated"
    by blast
  from a b c 3 show ?thesis by blast
qed

text \<open>
  C3, as the spec has it, fails: an array whose first entry has no \<^verbatim>\<open>id\<close> is not
  an error; the import goes ahead and changes the progress of \<open>A\<close> from 0 to 50.
\<close>

theorem import_entry_without_id_counterexample:
  "get_prop (JObj [(''progress'', JNum 10)]) ''id'' = Inr None \<and>
   fst (importProgress (\<lambda>t. t)
          (Some (JArr [JObj [(''progress'', JNum 10)],
                       JObj [(''id'', JStr ''A''), (''progress'', JNum 50)]]))
          (app_abc 0 0 0)) = Updated \<and>
   progress (nodes (snd (importProgress (\<lambda>t. t)
          (Some (JArr [JObj [(''progress'', JNum 10)],
                       JObj [(''id'', JStr ''A''), (''progress'', JNum 50)]]))
          (app_abc 0 0 0))) ! 0) = 50 \<and>
   progress (nodes (app_abc 0 0 0) ! 0) = 0"
  by (simp add: importProgress_def import_node_def setItem_def app_abc_def abc_def mk_node_def
      storage0_def computeUnlocks_def Let_def)

text \<open>
  C4, as the code has it.  For an array without a \<^verbatim>\<open>null\<close> entry (so for every array
  of objects) and working storage, the import succeeds and every topic keeps its id,
  title, description and prerequisites.  A topic whose id no entry carries keeps its
  progress; otherwise the first entry carrying its id decides alone: if its
  \<^verbatim>\<open>progress\<close> is a number, the topic gets that number clamped to \<open>[0, 100]\<close>, and
  if not, the topic keeps its progress, whatever later entries with the same id hold.
  An entry whose id no topic has can be removed from the array without changing the
  result.
\<close>

theorem import_applies_matching_entries:
  assumes "JSON_parse text = Some (JArr arr)" and "JNull \<notin> set arr"
    and "available (localStorage st)" and "k < length (nodes st)"
  shows "fst (importProgress JSON_parse text st) = Updated \<and>
         length (nodes (snd (importProgress JSON_parse text st))) = length (nodes st) \<and>
         node_id (nodes (snd (importProgress JSON_parse text st)) ! k) = node_id (nodes st ! k) \<and>
         title (nodes (snd (importProgress JSON_parse text st)) ! k) = title (nodes st ! k) \<and>
         description (nodes (snd (importProgress JSON_parse text st)) ! k) =
           description (nodes st ! k) \<and>
         dependencies (nodes (snd (importProgress JSON_parse text st)) ! k) =
           dependencies (nodes st ! k) \<and>
         ((\<forall>e\<in>set arr. \<not> has_id e (node_id (nodes st ! k))) \<longrightarrow>
            progress (nodes (snd (importProgress JSON_parse text st)) ! k) = progress (nodes st ! k)) \<and>
         (\<forall>es1 m es2.
            arr = es1 @ m # es2 \<and> (\<forall>e\<in>set es1. \<not> has_id e (node_id (nodes st ! k))) \<and>
            has_id m (node_id (nodes st ! k)) \<longrightarrow>
              (\<forall>p. get_prop m ''progress'' = Inr (Some (JNum p)) \<longrightarrow>
                 progress (nodes (snd (importProgress JSON_parse text st)) ! k) = max 0 (min 100 p)) \<and>
              ((\<forall>p. get_prop m ''progress'' \<noteq> Inr (Some (JNum p))) \<longrightarrow>
                 progress (nodes (snd (importProgress JSON_parse text st)) ! k) = progress (nodes st ! k))) \<and>
         (\<forall>es1 e es2 text'.
            arr = es1 @ e # es2 \<and> (\<forall>n\<in>set (nodes st). \<not> has_id e (node_id n)) \<and>
            JSON_parse text' = Some (JArr (es1 @ es2)) \<longrightarrow>
              importProgress JSON_parse text' st = importProgress JSON_parse text st)"
proof -
  let ?n = "nodes st ! k"
  let ?after = "nodes (snd (importProgress JSON_parse text st))"
  note res = importProgress_array[of JSON_parse "text" arr st, OF assms(1-3)]
  have len: "length ?after = length (nodes st)"
    by (simp add: res(2) length_computeUnlocks)
  have nid: "node_id (?after ! k) = node_id ?n"
    using assms(4) by (simp add: res(2) node_id_computeUnlocks_map imported_fields)
  have fields: "title (?after ! k) = title ?n" "description (?after ! k) = description ?n"
    "dependencies (?after ! k) = dependencies ?n"
    using assms(4) by (simp_all add: res(2) computeUnlocks_nth imported_fields)
  have prog: "progress (?after ! k) = progress (imported arr ?n)"
    using assms(4) by (simp add: res(2) progress_computeUnlocks_map)
  have absent: "progress (?after ! k) = progress ?n" if "\<forall>e\<in>set arr. \<not> has_id e (node_id ?n)"
    using that by (simp add: prog imported_absent)
  have first:
    "(\<forall>p. get_prop m ''progress'' = Inr (Some (JNum p)) \<longrightarrow>
         progress (?after ! k) = max 0 (min 100 p)) \<and>
     ((\<forall>p. get_prop m ''progress'' \<noteq> Inr (Some (JNum p))) \<longrightarrow>
         progress (?after ! k) = progress ?n)"
    if m: "arr = es1 @ m # es2" "\<forall>e\<in>set es1. \<not> has_id e (node_id ?n)" "has_id m (node_id ?n)"
    for es1 m es2
  proof -
    from m(1) assms(2) have "\<forall>e\<in>set es1. e \<noteq> JNull" by auto
    with m(2) have "\<forall>e\<in>set es1. \<not> has_id e (node_id ?n) \<and> e \<noteq> JNull" by blast
    then have f: "find_entry arr (node_id ?n) = Inr (Some m)"
      unfolding m(1) using m(3) by (rule find_entry_first)
    show ?thesis
      using imported_number[OF f] imported_not_number[OF f] by (simp add: prog)
  qed
  have dropped: "importProgress JSON_parse text' st = importProgress JSON_parse text st"
    if e: "arr = es1 @ e # es2" "\<forall>n\<in>set (nodes st). \<not> has_id e (node_id n)"
      "JSON_parse text' = Some (JArr (es1 @ es2))"
    for es1 e es2 text'
  proof -
    from e(1) assms(2) have "e \<noteq> JNull" by auto
    with e(2) have "find_entry (es1 @ es2) (node_id n) = find_entry (es1 @ e # es2) (node_id n)"
      if "n \<in> set (nodes st)" for n
      using that by (simp add: find_entry_drop)
    then show ?thesis
      using importProgress_cong[of JSON_parse text' "es1 @ es2" "text" "es1 @ e # es2" st]
        e(3) assms(1) unfolding e(1) by simp
  qed
  from res(1) len nid fields absent first dropped show ?thesis
    by blast
qed

theorem import_applies_matching_entries_witness:
  "(\<lambda>t. t) (Some (JArr sample_snapshot)) = Some (JArr sample_snapshot) \<and>
   JNull \<notin> set sample_snapshot \<and>
   available (localStorage (app_abc 0 25 50)) \<and>
   2 < length (nodes (app_abc 0 25 50)) \<and>
   fst (importProgress (\<lambda>t. t) (Some (JArr sample_snapshot)) (app_abc 0 25 50)) = Updated \<and>
   progress (nodes (snd (importProgress (\<lambda>t. t) (Some (JArr sample_snapshot)) (app_abc 0 25 50))) ! 0) = 100 \<and>
   progress (nodes (snd (importProgress (\<lambda>t. t) (Some (JArr sample_snapshot)) (app_abc 0 25 50))) ! 1) = 25 \<and>
   progress (nodes (snd (importProgress (\<lambda>t. t) (Some (JArr sample_snapshot)) (app_abc 0 25 50))) ! 2) = 50 \<and>
   title (nodes (snd (importProgress (\<lambda>t. t) (Some (JArr sample_snapshot)) (app_abc 0 25 50))) ! 2) =
     ''Topic C'' \<and>
   description (nodes (snd (importProgress (\<lambda>t. t) (Some (JArr sample_snapshot)) (app_abc 0 25 50))) ! 2) =
     ''third'' \<and>
   dependencies (nodes (snd (importProgress (\<lambda>t. t) (Some (JArr sample_snapshot)) (app_abc 0 25 50))) ! 2) =
     [''A'', ''B''] \<and>
   importProgress (\<lambda>t. t) (Some (JArr (tl sample_snapshot))) (app_abc 0 25 50) =
     importProgress (\<lambda>t. t) (Some (JArr sample_snapshot)) (app_abc 0 25 50)"
proof -
  let ?st = "app_abc 0 25 50"
  let ?after = "nodes (snd (importProgress (\<lambda>t. t) (Some (JArr sample_snapshot)) ?st))"
  have h1: "(\<lambda>t. t) (Some (JArr sample_snapshot)) = Some (JArr sample_snapshot)"
    by simp
  have h2: "JNull \<notin> set sample_snapshot"
    by (simp add: sample_snapshot_def)
  have h3: "available (localStorage ?st)"
    by (simp add: app_abc_def storage0_def)
  have k: "0 < length (nodes ?st)" "1 < length (nodes ?st)" "2 < length (nodes ?st)"
    by (simp_all add: app_abc_def abc_def)
  have n: "node_id (nodes ?st ! 0) = ''A''" "node_id (nodes ?st ! 1) = ''B''"
    "node_id (nodes ?st ! 2) = ''C''" "progress (nodes ?st ! 1) = 25" "progress (nodes ?st ! 2) = 50"
    by (simp_all add: app_abc_def abc_def mk_node_def)
  note t0 = import_applies_matching_entries[of "\<lambda>t. t" "Some (JArr sample_snapshot)" sample_snapshot ?st 0,
      OF h1 h2 h3 k(1), unfolded n]
  note t1 = import_applies_matching_entries[of "\<lambda>t. t" "Some (JArr sample_snapshot)" sample_snapshot ?st 1,
      OF h1 h2 h3 k(2), unfolded n]
  note t2 = import_applies_matching_entries[of "\<lambda>t. t" "Some (JArr sample_snapshot)" sample_snapshot ?st 2,
      OF h1 h2 h3 k(3), unfolded n]
  from t0 have upd: "fst (importProgress (\<lambda>t. t) (Some (JArr sample_snapshot)) ?st) = Updated"
    by (rule conjunct1)
  have split0: "sample_snapshot =
        [JObj [(''id'', JStr ''nonexistent''), (''progress'', JNum 50)]] @
        JObj [(''id'', JStr ''A''), (''progress'', JNum 150)] #
        [JObj [(''id'', JStr ''B''), (''progress'', JStr ''high'')],
         JObj [(''id'', JStr ''A''), (''progress'', JNum 30)]] \<and>
      (\<forall>e\<in>set [JObj [(''id'', JStr ''nonexistent''), (''progress'', JNum 50)]]. \<not> has_id e ''A'') \<and>
      has_id (JObj [(''id'', JStr ''A''), (''progress'', JNum 150)]) ''A''"
    by (simp add: sample_snapshot_def has_id_def)
  have p0: "get_prop (JObj [(''id'', JStr ''A''), (''progress'', JNum 150)]) ''progress'' =
            Inr (Some (JNum 150))"
    by simp
  from t0 split0 p0 have a: "progress (?after ! 0) = max 0 (min 100 150)"
    by blast
  have split1: "sample_snapshot =
        [JObj [(''id'', JStr ''nonexistent''), (''progress'', JNum 50)],
         JObj [(''id'', JStr ''A''), (''progress'', JNum 150)]] @
        JObj [(''id'', JStr ''B''), (''progress'', JStr ''high'')] #
        [JObj [(''id'', JStr ''A''), (''progress'', JNum 30)]] \<and>
      (\<forall>e\<in>set [JObj [(''id'', JStr ''nonexistent''), (''progress'', JNum 50)],
                 JObj [(''id'', JStr ''A''), (''progress'', JNum 150)]]. \<not> has_id e ''B'') \<and>
      has_id (JObj [(''id'', JStr ''B''), (''progress'', JStr ''high'')]) ''B''"
    by (simp add: sample_snapshot_def has_id_def)
  have p1: "\<forall>p. get_prop (JObj [(''id'', JStr ''B''), (''progress'', JStr ''high'')]) ''progress'' \<noteq>
            Inr (Some (JNum p))"
    by simp
  from t1 split1 p1 have b: "progress (?after ! 1) = 25"
    by blast
  have absent: "\<forall>e\<in>set sample_snapshot. \<not> has_id e ''C''"
    by (simp add: sample_snapshot_def has_id_def)
  from t2 absent have c: "progress (?after ! 2) = 50"
    by blast
  have f: "title (nodes ?st ! 2) = ''Topic C''" "description (nodes ?st ! 2) = ''third''"
    "dependencies (nodes ?st ! 2) = [''A'', ''B'']"
    by (simp_all add: app_abc_def abc_def mk_node_def)
  from t2 have c': "title (?after ! 2) = ''Topic C''" "description (?after ! 2) = ''third''"
    "dependencies (?after ! 2) = [''A'', ''B'']"
    unfolding f by blast+
  have unknown: "sample_snapshot =
        [] @ JObj [(''id'', JStr ''nonexistent''), (''progress'', JNum 50)] # tl sample_snapshot \<and>
      (\<forall>n\<in>set (nodes ?st).
          \<not> has_id (JObj [(''id'', JStr ''nonexistent''), (''progress'', JNum 50)]) (node_id n)) \<and>
      (\<lambda>t. t) (Some (JArr (tl sample_snapshot))) = Some (JArr ([] @ tl sample_snapshot))"
    by (simp add: sample_snapshot_def has_id_def app_abc_def abc_def mk_node_def)
  note drop = t0[THEN conjunct2, THEN conjunct2, THEN conjunct2, THEN conjunct2, THEN conjunct2,
      THEN conjunct2, THEN conjunct2, THEN conjunct2, rule_format, of "[]" "JObj [(''id'', JStr ''nonexistent''), (''progress'', JNum 50)]"
        "tl sample_snapshot" "Some (JArr (tl sample_snapshot))"]
  from unknown
  have d: "importProgress (\<lambda>t. t) (Some (JArr (tl sample_snapshot))) ?st =
           importProgress (\<lambda>t. t) (Some (JArr sample_snapshot)) ?st"
    by (rule drop)
  from h1 h2 h3 k(3) upd a b c c' d show ?thesis
    by (intro conjI) simp_all
qed

text \<open>
  C4, as the spec has it, fails when two entries carry the same id: the first entry for
  \<open>A\<close> has a progress that is not a number and the second has 99.  Dropping the first
  and applying the remaining one would give \<open>A\<close> the progress 99; the import leaves
  \<open>A\<close> at 10, because \<^verbatim>\<open>arr.find\<close> returns the first entry and no other.
\<close>

theorem import_non_number_shadows_counterexample:
  "has_id (JObj [(''id'', JStr ''A''), (''progress'', JStr ''high'')]) ''A'' \<and>
   get_prop (JObj [(''id'', JStr ''A''), (''progress'', JStr ''high'')]) ''progress'' =
     Inr (Some (JStr ''high'')) \<and>
   has_id (JObj [(''id'', JStr ''A''), (''progress'', JNum 99)]) ''A'' \<and>
   get_prop (JObj [(''id'', JStr ''A''), (''progress'', JNum 99)]) ''progress'' =
     Inr (Some (JNum 99)) \<and>
   fst (importProgress (\<lambda>t. t)
          (Some (JArr [JObj [(''id'', JStr ''A''), (''progress'', JStr ''high'')],
                       JObj [(''id'', JStr ''A''), (''progress'', JNum 99)]]))
          (app_abc 10 20 30)) = Updated \<and>
   map progress (nodes (snd (importProgress (\<lambda>t. t)
          (Some (JArr [JObj [(''id'', JStr ''A''), (''progress'', JStr ''high'')],
                       JObj [(''id'', JStr ''A''), (''progress'', JNum 99)]]))
          (app_abc 10 20 30)))) = [10, 20, 30] \<and>
   map progress (nodes (snd (importProgress (\<lambda>t. t)
          (Some (JArr [JObj [(''id'', JStr ''A''), (''progress'', JNum 99)]]))
          (app_abc 10 20 30)))) = [99, 20, 30]"
  by (simp add: importProgress_def import_node_def setItem_def app_abc_def abc_def mk_node_def
      storage0_def computeUnlocks_def has_id_def Let_def)

text \<open>
  C10.  A later entry with the id of an earlier one is never looked at: removing it
  leaves the result of the import unchanged, whatever the entry holds.  The first entry
  with a topic's id, when its progress is a number, gives the topic's new progress.
\<close>

theorem import_first_duplicate_wins:
  assumes "has_id e i" and "has_id d i"
    and "JSON_parse t1 = Some (JArr (es1 @ e # es2 @ d # es3))"
    and "JSON_parse t2 = Some (JArr (es1 @ e # es2 @ es3))"
  shows "importProgress JSON_parse t1 st = importProgress JSON_parse t2 st \<and>
         (JNull \<notin> set (es1 @ es2 @ es3) \<and> (\<forall>x\<in>set es1. \<not> has_id x i) \<and>
          available (localStorage st) \<and> k < length (nodes st) \<and> node_id (nodes st ! k) = i \<and>
          get_prop e ''progress'' = Inr (Some (JNum p)) \<longrightarrow>
            progress (nodes (snd (importProgress JSON_parse t1 st)) ! k) = max 0 (min 100 p))"
proof -
  let ?arr = "es1 @ e # es2 @ d # es3"
  have eq: "importProgress JSON_parse t1 st = importProgress JSON_parse t2 st"
    using importProgress_cong[of JSON_parse t1 ?arr t2 "es1 @ e # es2 @ es3" st]
      assms(3,4) find_entry_later_duplicate[OF assms(1,2)]
    by simp
  have "progress (nodes (snd (importProgress JSON_parse t1 st)) ! k) = max 0 (min 100 p)"
    if h: "JNull \<notin> set (es1 @ es2 @ es3)" "\<forall>x\<in>set es1. \<not> has_id x i"
      "available (localStorage st)" "k < length (nodes st)" "node_id (nodes st ! k) = i"
      "get_prop e ''progress'' = Inr (Some (JNum p))"
  proof -
    from assms(1,2) have "e \<noteq> JNull" "d \<noteq> JNull"
      by (simp_all add: has_id_not_null)
    with h(1) have nonull: "JNull \<notin> set ?arr" by auto
    from h(1,2) have "\<forall>x\<in>set es1. \<not> has_id x i \<and> x \<noteq> JNull" by auto
    then have "find_entry ?arr i = Inr (Some e)"
      using assms(1) by (rule find_entry_first)
    with h(5) have f: "find_entry ?arr (node_id (nodes st ! k)) = Inr (Some e)" by simp
    have "nodes (snd (importProgress JSON_parse t1 st)) =
          computeUnlocks (map (imported ?arr) (nodes st))"
      using importProgress_array(2)[of JSON_parse t1 ?arr st] assms(3) nonull h(3) by simp
    with h(4) show ?thesis
      by (simp add: progress_computeUnlocks_map imported_number[OF f h(6)])
  qed
  with eq show ?thesis by blast
qed


theorem import_first_duplicate_wins_witness:
  "has_id (JObj [(''id'', JStr ''A''), (''progress'', JNum 150)]) ''A'' \<and>
   has_id (JObj [(''id'', JStr ''A''), (''progress'', JNum 30)]) ''A'' \<and>
   importProgress (\<lambda>t. t) (Some (JArr sample_snapshot)) (app_abc 0 25 50) =
   importProgress (\<lambda>t. t) (Some (JArr (butlast sample_snapshot))) (app_abc 0 25 50) \<and>
   progress (nodes (snd (importProgress (\<lambda>t. t) (Some (JArr sample_snapshot)) (app_abc 0 25 50))) ! 0) = 100"
proof -
  let ?e = "JObj [(''id'', JStr ''A''), (''progress'', JNum 150)]"
  let ?d = "JObj [(''id'', JStr ''A''), (''progress'', JNum 30)]"
  let ?es1 = "[JObj [(''id'', JStr ''nonexistent''), (''progress'', JNum 50)]]"
  let ?es2 = "[JObj [(''id'', JStr ''B''), (''progress'', JStr ''high'')]]"
  let ?st = "app_abc 0 25 50"
  have h1: "has_id ?e ''A''" and h2: "has_id ?d ''A''"
    by (simp_all add: has_id_def)
  have s1: "sample_snapshot = ?es1 @ ?e # ?es2 @ ?d # []"
    and s2: "butlast sample_snapshot = ?es1 @ ?e # ?es2 @ []"
    by (simp_all add: sample_snapshot_def)
  have h3: "(\<lambda>t. t) (Some (JArr sample_snapshot)) = Some (JArr (?es1 @ ?e # ?es2 @ ?d # []))"
    and h4: "(\<lambda>t. t) (Some (JArr (butlast sample_snapshot))) = Some (JArr (?es1 @ ?e # ?es2 @ []))"
    by (simp_all add: sample_snapshot_def)
  have side: "JNull \<notin> set (?es1 @ ?es2 @ []) \<and> (\<forall>x\<in>set ?es1. \<not> has_id x ''A'') \<and>
      available (localStorage ?st) \<and> 0 < length (nodes ?st) \<and> node_id (nodes ?st ! 0) = ''A'' \<and>
      get_prop ?e ''progress'' = Inr (Some (JNum 150))"
    by (simp add: has_id_def app_abc_def abc_def mk_node_def storage0_def)
  from import_first_duplicate_wins[of ?e "''A''" ?d "\<lambda>t. t" "Some (JArr sample_snapshot)" ?es1 ?es2 "[]"
      "Some (JArr (butlast sample_snapshot))" ?st 0 150, OF h1 h2 h3 h4] side h1 h2
  have "importProgress (\<lambda>t. t) (Some (JArr sample_snapshot)) ?st =
        importProgress (\<lambda>t. t) (Some (JArr (butlast sample_snapshot))) ?st \<and>
        progress (nodes (snd (importProgress (\<lambda>t. t) (Some (JArr sample_snapshot)) ?st)) ! 0) =
          max 0 (min 100 150)"
    by blast
  with h1 h2 show ?thesis by auto
qed

text \<open>
  C5, as the code has it.  With unique topic ids, progress values within \<open>[0, 100]\<close>, working storage and
  a \<^verbatim>\<open>JSON.parse\<close> that reads back what \<^verbatim>\<open>JSON.stringify\<close> wrote, importing an
  exported file into the same topics, whatever their progress has become, gives every
  topic the progress it had at the time of the export.
\<close>

theorem export_import_roundtrip:
  assumes "distinct (map node_id (nodes st0))"
    and "\<forall>n\<in>set (nodes st0). 0 \<le> progress n \<and> progress n \<le> 100"
    and "map node_id (nodes st) = map node_id (nodes st0)"
    and "available (localStorage st)"
    and "JSON_parse (JSON_stringify (progressData (nodes st0))) = Some (progressData (nodes st0))"
  shows "fst (importProgress JSON_parse (exportProgress JSON_stringify st0) st) = Updated \<and>
         map progress (nodes (snd (importProgress JSON_parse (exportProgress JSON_stringify st0) st))) =
           map progress (nodes st0)"
proof -
  let ?arr = "map entry_of (nodes st0)"
  let ?file = "exportProgress JSON_stringify st0"
  have parsed: "JSON_parse ?file = Some (JArr ?arr)"
    using assms(5) by (simp add: exportProgress_def progressData_entries)
  have nonull: "JNull \<notin> set ?arr"
    by (auto simp: entry_of_def)
  note res = importProgress_array[of JSON_parse ?file ?arr st, OF parsed nonull assms(4)]
  from assms(3) have len: "length (nodes st) = length (nodes st0)"
    by (rule map_eq_imp_length_eq)
  have "progress (nodes (snd (importProgress JSON_parse ?file st)) ! k) = progress (nodes st0 ! k)"
    if k: "k < length (nodes st0)" for k
  proof -
    from k have mem: "nodes st0 ! k \<in> set (nodes st0)" by simp
    from k len have "map node_id (nodes st) ! k = node_id (nodes st ! k)"
      "map node_id (nodes st0) ! k = node_id (nodes st0 ! k)"
      by simp_all
    with assms(3) have same: "node_id (nodes st ! k) = node_id (nodes st0 ! k)" by simp
    from mem assms(2) have range: "0 \<le> progress (nodes st0 ! k)" "progress (nodes st0 ! k) \<le> 100"
      by blast+
    have "progress (imported ?arr (nodes st ! k)) = progress (nodes st0 ! k)"
      using assms(1) mem same range by (rule imported_export)
    with k len show ?thesis
      by (simp add: res(2) progress_computeUnlocks_map)
  qed
  then have "map progress (nodes (snd (importProgress JSON_parse ?file st))) = map progress (nodes st0)"
    by (intro nth_equalityI) (simp_all add: res(2) length_computeUnlocks len)
  with res(1) show ?thesis by simp
qed

theorem export_import_roundtrip_witness:
  "distinct (map node_id (nodes (app_abc 100 75 0))) \<and>
   map node_id (nodes (app_abc 0 25 50)) = map node_id (nodes (app_abc 100 75 0)) \<and>
   available (localStorage (app_abc 0 25 50)) \<and>
   (\<lambda>t. t) (Some (progressData (nodes (app_abc 100 75 0)))) = Some (progressData (nodes (app_abc 100 75 0))) \<and>
   fst (importProgress (\<lambda>t. t) (exportProgress Some (app_abc 100 75 0)) (app_abc 0 25 50)) = Updated \<and>
   map progress (nodes (snd (importProgress (\<lambda>t. t) (exportProgress Some (app_abc 100 75 0))
      (app_abc 0 25 50)))) = [100, 75, 0]"
proof -
  have h1: "distinct (map node_id (nodes (app_abc 100 75 0)))"
    by (simp add: app_abc_def abc_def mk_node_def)
  have h2: "\<forall>n\<in>set (nodes (app_abc 100 75 0)). 0 \<le> progress n \<and> progress n \<le> 100"
    by (simp add: app_abc_def abc_def mk_node_def)
  have h3: "map node_id (nodes (app_abc 0 25 50)) = map node_id (nodes (app_abc 100 75 0))"
    by (simp add: app_abc_def abc_def mk_node_def)
  have h4: "available (localStorage (app_abc 0 25 50))"
    by (simp add: app_abc_def storage0_def)
  have h5: "(\<lambda>t. t) (Some (progressData (nodes (app_abc 100 75 0)))) =
            Some (progressData (nodes (app_abc 100 75 0)))"
    by simp
  have v: "map progress (nodes (app_abc 100 75 0)) = [100, 75, 0]"
    by (simp add: app_abc_def abc_def mk_node_def)
  from export_import_roundtrip[of "app_abc 100 75 0" "app_abc 0 25 50" "\<lambda>t. t" Some, OF h1 h2 h3 h4 h5]
    h1 h3 h4 h5 v
  show ?thesis by simp
qed


text \<open>
  C5, as the spec has it, fails outside \<open>[0, 100]\<close>: the update path and the load from
  storage keep any integer, the export writes it, and the import clamps it.  Topics with
  progress 150, -10 and 0 come back from their own export with 100, 0 and 0.
\<close>

theorem export_import_roundtrip_counterexample:
  "map progress (nodes (app_abc 150 (- 10) 0)) = [150, - 10, 0] \<and>
   fst (importProgress (\<lambda>t. t) (exportProgress Some (app_abc 150 (- 10) 0))
          (app_abc 150 (- 10) 0)) = Updated \<and>
   map progress (nodes (snd (importProgress (\<lambda>t. t) (exportProgress Some (app_abc 150 (- 10) 0))
          (app_abc 150 (- 10) 0)))) = [100, 0, 0]"
  by (simp add: importProgress_def exportProgress_def progressData_def import_node_def setItem_def
      app_abc_def abc_def mk_node_def storage0_def computeUnlocks_def Let_def)

end
